theory Spec2Isabelle
  imports Main "HOL-Library.Multiset"
begin

section \<open>One side of a streaming order book (package websocket, type OrderBookSide)\<close>

text \<open>
  The side keeps a Go map from canonical price keys to levels (\<open>o.m\<close>), a slice of the
  best levels (\<open>o.sorted\<close>), rebuilt by \<open>applyUpdates\<close>, and a read/write mutex.
  The decimal arithmetic (github.com/ericlagergren/decimal), \<open>fmt.Sprintf\<close>,
  \<open>json.Number.Float64\<close> and \<open>sort.Sort\<close> are libraries the package calls; they are
  taken as a parameter \<open>L\<close> of every function below, and the theorems hold for every such
  library (under the contracts they name).
\<close>

subsection \<open>Values\<close>

text \<open>Go's \<open>error\<close>: a value carrying a message.\<close>

datatype error = Error string

text \<open>\<open>type orderBookLevel struct { Price, Volume *decimal.Big }\<close>; \<open>'d\<close> is the
  type of decimal numbers. The numbers are never written to after they are stored, so the
  pointers are modelled by the values.\<close>

record 'd orderBookLevel =
  Price :: 'd
  Volume :: 'd

text \<open>Modelled from the spec: the declaration of \<open>OrderBookItem\<close> of package websocket is
  not among the sources (the one of package rest has float fields and none of the methods
  called here). The spec describes an update as a (price, volume) pair, "each an exact
  decimal representable in text form"; the source reads them with \<open>upd.Price.String()\<close>
  and \<open>upd.Volume.Float64()\<close>, the methods of a number kept as text.\<close>

record OrderBookItem =
  upd_Price :: string
  upd_Volume :: string

text \<open>The receiver of \<open>UnmarshalText\<close>: \<open>decimal.WithPrecision(p)\<close> or the zero value
  \<open>&decimal.Big{}\<close>.\<close>

datatype receiver = WithPrecision int | ZeroBig

text \<open>The libraries.
  \<^item> \<open>Float64_is_0 s\<close>: \<open>flValue, err := s.Float64()\<close> followed by the test
    \<open>flValue == 0\<close>, the only use the source makes of the float;
  \<^item> \<open>UnmarshalText r s\<close>: \<open>r.UnmarshalText([]byte(s))\<close>, the number left in \<open>r\<close>;
  \<^item> \<open>Sprintf f x\<close>: \<open>fmt.Sprintf(f, x)\<close> for a decimal \<open>x\<close>;
  \<^item> \<open>Cmp x y\<close>: \<open>x.Cmp(y)\<close>;
  \<^item> \<open>New v scale\<close>: \<open>decimal.New(v, scale)\<close>;
  \<^item> \<open>Sort lt xs\<close>: the slice after \<open>sort.Sort\<close>, whose \<open>Less(i, j)\<close> is \<open>lt\<close> of the
    elements at \<open>i\<close> and \<open>j\<close>.\<close>

record 'd library =
  Float64_is_0 :: "string \<Rightarrow> error + bool"
  UnmarshalText :: "receiver \<Rightarrow> string \<Rightarrow> error + 'd"
  Sprintf :: "string \<Rightarrow> 'd \<Rightarrow> string"
  Cmp :: "'d \<Rightarrow> 'd \<Rightarrow> int"
  New :: "int \<Rightarrow> int \<Rightarrow> 'd"
  Sort :: "('d orderBookLevel \<Rightarrow> 'd orderBookLevel \<Rightarrow> bool) \<Rightarrow>
           'd orderBookLevel list \<Rightarrow> 'd orderBookLevel list"

text \<open>\<open>type OrderBookSide struct\<close>; the fields \<open>o.m\<close>, \<open>o.sorted\<close>, ... are written
  \<open>o_m\<close>, \<open>o_sorted\<close>, ... The depth and the precisions are Go \<open>int\<close>s that the code only
  compares, prints and slices by. The field \<open>o_mx\<close> is the mutex: \<open>True\<close> when it is held
  for writing. In a sequential run it is held on entry only if an earlier call returned
  without releasing it.\<close>

record 'd OrderBookSide =
  o_m :: "string \<rightharpoonup> 'd orderBookLevel"
  o_sorted :: "'d orderBookLevel list"
  o_depth :: int
  o_pricePrecision :: int
  o_volumePrecision :: int
  o_isAsk :: bool
  o_mx :: bool

text \<open>What a call does: it returns (with Go's \<open>error\<close> or \<open>nil\<close>, and the side as it
  left it), it never returns because it waits for the mutex, or it panics.\<close>

datatype 'a outcome = Return "error option" 'a | Blocked | Panic

subsection \<open>Standard library functions on strings\<close>

text \<open>\<open>strconv.Itoa\<close>.\<close>

function Itoa_digits :: "int \<Rightarrow> string" where
  "Itoa_digits n =
     (if n < 10 then [''0123456789'' ! nat n]
      else Itoa_digits (n div 10) @ [''0123456789'' ! nat (n mod 10)])"
  by pat_completeness auto
termination
  by (relation "measure nat") auto

declare Itoa_digits.simps [simp del]

definition Itoa :: "int \<Rightarrow> string" where
  "Itoa i = (if i < 0 then CHR ''-'' # Itoa_digits (- i) else Itoa_digits i)"

text \<open>\<open>strings.Replace(s, old, "", 1)\<close> for a one-character \<open>old\<close>: the first occurrence
  is removed.\<close>

fun Replace_1 :: "string \<Rightarrow> char \<Rightarrow> string" where
  "Replace_1 [] old = []"
| "Replace_1 (c # cs) old = (if c = old then cs else c # Replace_1 cs old)"

text \<open>\<open>strings.TrimLeft(s, cutset)\<close>.\<close>

definition TrimLeft :: "string \<Rightarrow> string \<Rightarrow> string" where
  "TrimLeft s cutset = dropWhile (\<lambda>c. c \<in> set cutset) s"

subsection \<open>The package\<close>

text \<open>\<open>byPrice.Less\<close> on the elements, and \<open>sort.Reverse\<close>, which swaps the arguments of
  \<open>Less\<close>.\<close>

definition byPrice_Less :: "'d library \<Rightarrow> 'd orderBookLevel \<Rightarrow> 'd orderBookLevel \<Rightarrow> bool" where
  "byPrice_Less L a b = (Cmp L (Price a) (Price b) = - 1)"

definition Reverse :: "('a \<Rightarrow> 'a \<Rightarrow> bool) \<Rightarrow> 'a \<Rightarrow> 'a \<Rightarrow> bool" where
  "Reverse lt a b = lt b a"

text \<open>\<open>for _, value := range m\<close>: Go visits the entries of a map in an order it does not
  specify. The order is the argument \<open>ks\<close>, the keys as the loop meets them.\<close>

fun range_values :: "('k \<rightharpoonup> 'v) \<Rightarrow> 'k list \<Rightarrow> 'v list" where
  "range_values mp [] = []"
| "range_values mp (k # ks) =
     (case mp k of None \<Rightarrow> range_values mp ks | Some v \<Rightarrow> v # range_values mp ks)"

definition range_order :: "('k \<rightharpoonup> 'v) \<Rightarrow> 'k list \<Rightarrow> bool" where
  "range_order mp ks = (distinct ks \<and> set ks = dom mp)"

definition newOrderBookLevels ::
  "'d library \<Rightarrow> string list \<Rightarrow> (string \<rightharpoonup> 'd orderBookLevel) \<Rightarrow> bool \<Rightarrow> 'd orderBookLevel list" where
  "newOrderBookLevels L ks mp asc =
     (let result = range_values mp ks
      in if asc then Sort L (byPrice_Less L) result
         else Sort L (Reverse (byPrice_Less L)) result)"

definition newOrderBookSide :: "int \<Rightarrow> int \<Rightarrow> int \<Rightarrow> bool \<Rightarrow> 'd OrderBookSide" where
  "newOrderBookSide depth pricePrecision volumePrecision isAsk =
     \<lparr> o_m = Map.empty, o_sorted = [], o_depth = depth,
       o_pricePrecision = pricePrecision, o_volumePrecision = volumePrecision,
       o_isAsk = isAsk, o_mx = False \<rparr>"

definition stringFixed :: "'d library \<Rightarrow> 'd \<Rightarrow> int \<Rightarrow> string" where
  "stringFixed L big precision =
     (let fmtStr = ''%.'' @ Itoa precision @ ''f'' in Sprintf L fmtStr big)"

text \<open>\<open>applyUpdate\<close>. The mutex is taken after the key is computed; a \<open>Lock\<close> on a mutex
  that is held does not return. The volume stored is unmarshalled from
  \<open>upd.Price.String()\<close>, as the source has it, and the return on its error leaves the
  mutex held.\<close>

definition applyUpdate ::
  "'d library \<Rightarrow> 'd OrderBookSide \<Rightarrow> OrderBookItem \<Rightarrow> 'd OrderBookSide outcome" where
  "applyUpdate L s upd =
     (case Float64_is_0 L (upd_Volume upd) of
        Inl err \<Rightarrow> Return (Some err) s
      | Inr flValue_is_0 \<Rightarrow>
          (case UnmarshalText L (WithPrecision (o_pricePrecision s)) (upd_Price upd) of
             Inl err \<Rightarrow> Return (Some err) s
           | Inr price \<Rightarrow>
               (let key = stringFixed L price (o_pricePrecision s)
                in if o_mx s then Blocked
                   else if flValue_is_0 then Return None (s\<lparr>o_m := (o_m s)(key := None)\<rparr>)
                   else (case UnmarshalText L ZeroBig (upd_Price upd) of
                           Inl err \<Rightarrow> Return (Some err) (s\<lparr>o_mx := True\<rparr>)
                         | Inr v \<Rightarrow>
                             Return None
                               (s\<lparr>o_m := (o_m s)(key \<mapsto> \<lparr>Price = price, Volume = v\<rparr>)\<rparr>)))))"

text \<open>The loop of \<open>applyUpdates\<close>: it returns at the first error.\<close>

fun applyUpdates_loop ::
  "'d library \<Rightarrow> 'd OrderBookSide \<Rightarrow> OrderBookItem list \<Rightarrow> 'd OrderBookSide outcome" where
  "applyUpdates_loop L s [] = Return None s"
| "applyUpdates_loop L s (u # updates) =
     (case applyUpdate L s u of
        Return None s' \<Rightarrow> applyUpdates_loop L s' updates
      | Return (Some err) s' \<Rightarrow> Return (Some err) s'
      | Blocked \<Rightarrow> Blocked
      | Panic \<Rightarrow> Panic)"

text \<open>The keys of the levels beyond the depth are deleted.\<close>

fun delete_levels ::
  "'d library \<Rightarrow> int \<Rightarrow> 'd orderBookLevel list \<Rightarrow> (string \<rightharpoonup> 'd orderBookLevel) \<Rightarrow>
   (string \<rightharpoonup> 'd orderBookLevel)" where
  "delete_levels L pp [] mp = mp"
| "delete_levels L pp (level # levels) mp =
     delete_levels L pp levels (mp(stringFixed L (Price level) pp := None))"

text \<open>\<open>applyUpdates\<close>, with the order \<open>ks\<close> in which \<open>newOrderBookLevels\<close> ranges over the
  map. The slice expressions \<open>levels[o.depth:]\<close> and \<open>levels[:o.depth]\<close> panic unless
  \<open>0 \<le> o.depth \<le> len(levels)\<close>; the source has no check before them.\<close>

definition applyUpdates ::
  "'d library \<Rightarrow> string list \<Rightarrow> 'd OrderBookSide \<Rightarrow> OrderBookItem list \<Rightarrow>
   'd OrderBookSide outcome" where
  "applyUpdates L ks s updates =
     (case applyUpdates_loop L s updates of
        Return None s' \<Rightarrow>
          (if o_mx s' then Blocked
           else let levels = newOrderBookLevels L ks (o_m s') (o_isAsk s')
                in if o_depth s' < 0 \<or> int (length levels) < o_depth s' then Panic
                   else Return None
                          (s'\<lparr>o_m := delete_levels L (o_pricePrecision s')
                                       (drop (nat (o_depth s')) levels) (o_m s'),
                               o_sorted := take (nat (o_depth s')) levels\<rparr>))
      | Return (Some err) s' \<Rightarrow> Return (Some err) s'
      | Blocked \<Rightarrow> Blocked
      | Panic \<Rightarrow> Panic)"

text \<open>\<open>Get\<close>: \<open>None\<close> when the read lock is never granted.\<close>

definition Get :: "'d library \<Rightarrow> 'd OrderBookSide \<Rightarrow> 'd \<Rightarrow> ('d \<times> bool) option" where
  "Get L s price =
     (if o_mx s then None
      else let key = stringFixed L price (o_pricePrecision s)
           in (case o_m s key of
                 None \<Rightarrow> Some (New L 0 0, False)
               | Some level \<Rightarrow> Some (Volume level, True)))"

text \<open>\<open>checksum\<close>: the bytes written to the buffer, level by level.\<close>

fun checksum_loop :: "'d library \<Rightarrow> int \<Rightarrow> int \<Rightarrow> 'd orderBookLevel list \<Rightarrow> string" where
  "checksum_loop L pp vp [] = []"
| "checksum_loop L pp vp (level # levels) =
     (let price = stringFixed L (Price level) pp;
          price = Replace_1 price CHR ''.'';
          price = TrimLeft price ''0'';
          volume = stringFixed L (Volume level) vp;
          volume = Replace_1 volume CHR ''.'';
          volume = TrimLeft volume ''0''
      in price @ volume @ checksum_loop L pp vp levels)"

definition checksum :: "'d library \<Rightarrow> 'd OrderBookSide \<Rightarrow> string option" where
  "checksum L s =
     (if o_mx s then None
      else Some (checksum_loop L (o_pricePrecision s) (o_volumePrecision s) (o_sorted s)))"

subsection \<open>Contracts of the libraries\<close>

text \<open>\<open>Cmp\<close> compares the decimals of a set \<open>P\<close>: among them its results are \<open>-1\<close>, \<open>0\<close>
  and \<open>1\<close>, swapping the arguments negates the result, and "not greater" is transitive.
  (A NaN, which \<open>Cmp\<close> reports equal to every number, is in no such set together with two
  different numbers.)\<close>

definition cmp_on :: "'d library \<Rightarrow> 'd set \<Rightarrow> bool" where
  "cmp_on L P =
     ((\<forall>x\<in>P. \<forall>y\<in>P. Cmp L x y = - 1 \<or> Cmp L x y = 0 \<or> Cmp L x y = 1) \<and>
      (\<forall>x\<in>P. \<forall>y\<in>P. Cmp L y x = - Cmp L x y) \<and>
      (\<forall>x\<in>P. \<forall>y\<in>P. \<forall>z\<in>P. Cmp L x y \<le> 0 \<and> Cmp L y z \<le> 0 \<longrightarrow> Cmp L x z \<le> 0))"

text \<open>An order \<open>lt\<close> that \<open>sort.Sort\<close> can sort by: no two elements are below each
  other, and "not below" is transitive.\<close>

definition weak_order :: "('a \<Rightarrow> 'a \<Rightarrow> bool) \<Rightarrow> bool" where
  "weak_order lt =
     ((\<forall>a b. lt a b \<longrightarrow> \<not> lt b a) \<and>
      (\<forall>a b c. \<not> lt b a \<and> \<not> lt c b \<longrightarrow> \<not> lt c a))"

text \<open>\<open>sort.Sort\<close> permutes the slice, and by such an order no later element is below an
  earlier one. (It is not stable.)\<close>

definition sort_ok :: "'d library \<Rightarrow> bool" where
  "sort_ok L =
     (\<forall>lt xs. mset (Sort L lt xs) = mset xs \<and>
        (weak_order lt \<longrightarrow> sorted_wrt (\<lambda>a b. \<not> lt b a) (Sort L lt xs)))"

text \<open>The same of an order on the elements of a set \<open>A\<close> only, and what \<open>sort.Sort\<close> does
  with a slice on whose elements \<open>Less\<close> is such an order: it calls \<open>Less\<close> on elements of
  the slice and on nothing else.\<close>

definition weak_order_on :: "'a set \<Rightarrow> ('a \<Rightarrow> 'a \<Rightarrow> bool) \<Rightarrow> bool" where
  "weak_order_on A lt =
     ((\<forall>a\<in>A. \<forall>b\<in>A. lt a b \<longrightarrow> \<not> lt b a) \<and>
      (\<forall>a\<in>A. \<forall>b\<in>A. \<forall>c\<in>A. \<not> lt b a \<and> \<not> lt c b \<longrightarrow> \<not> lt c a))"

definition sort_sorts :: "'d library \<Rightarrow> bool" where
  "sort_sorts L =
     (\<forall>lt xs. weak_order_on (set xs) lt \<longrightarrow> sorted_wrt (\<lambda>a b. \<not> lt b a) (Sort L lt xs))"

text \<open>No two levels of a map, stored under different keys, have prices that compare equal.
  (The key is the printed price, and the library prints some prices that compare equal
  differently.)\<close>

definition no_ties :: "'d library \<Rightarrow> (string \<rightharpoonup> 'd orderBookLevel) \<Rightarrow> bool" where
  "no_ties L mp =
     (\<forall>k k' a b. mp k = Some a \<and> mp k' = Some b \<and> k \<noteq> k' \<longrightarrow> Cmp L (Price a) (Price b) \<noteq> 0)"

subsection \<open>Invariant of the map\<close>

text \<open>Every level is stored under the key of its own price: \<open>applyUpdate\<close> computes the
  key from the price it stores.\<close>

definition keys_ok :: "'d library \<Rightarrow> 'd OrderBookSide \<Rightarrow> bool" where
  "keys_ok L s =
     (\<forall>k level. o_m s k = Some level \<longrightarrow> k = stringFixed L (Price level) (o_pricePrecision s))"

subsection \<open>A library to run the functions on\<close>

text \<open>An instance of the library parameter, for evaluating the functions above on concrete
  updates: decimals with eight fractional digits, held as the integer number of
  \<open>10\<^sup>-\<^sup>8\<close> units. Texts are an optional \<open>-\<close>, digits, and optionally a point and
  digits; digits beyond the eighth are dropped. \<open>%.Nf\<close> prints \<open>N\<close> fractional digits
  (dropping the rest), and \<open>Sort\<close> is insertion sort.\<close>

definition digit_of :: "char \<Rightarrow> int option" where
  "digit_of c =
     map_of [(CHR ''0'', 0), (CHR ''1'', 1), (CHR ''2'', 2), (CHR ''3'', 3), (CHR ''4'', 4),
             (CHR ''5'', 5), (CHR ''6'', 6), (CHR ''7'', 7), (CHR ''8'', 8), (CHR ''9'', 9)] c"

fun digits_val :: "int \<Rightarrow> string \<Rightarrow> int option" where
  "digits_val acc [] = Some acc"
| "digits_val acc (c # cs) =
     (case digit_of c of None \<Rightarrow> None | Some d \<Rightarrow> digits_val (10 * acc + d) cs)"

definition fx_unsigned :: "string \<Rightarrow> int option" where
  "fx_unsigned s =
     (let ip = takeWhile (\<lambda>c. c \<noteq> CHR ''.'') s;
          fp = drop 1 (dropWhile (\<lambda>c. c \<noteq> CHR ''.'') s);
          fp8 = take 8 (fp @ ''00000000'')
      in if ip = [] then None
         else (case (digits_val 0 ip, digits_val 0 fp, digits_val 0 fp8) of
                 (Some i, Some _, Some f) \<Rightarrow> Some (i * 10 ^ 8 + f)
               | _ \<Rightarrow> None))"

definition fx_parse :: "string \<Rightarrow> error + int" where
  "fx_parse s =
     (case s of
        [] \<Rightarrow> Inl (Error ''syntax'')
      | c # cs \<Rightarrow>
          (if c = CHR ''-''
           then (case fx_unsigned cs of None \<Rightarrow> Inl (Error ''syntax'') | Some n \<Rightarrow> Inr (- n))
           else (case fx_unsigned s of None \<Rightarrow> Inl (Error ''syntax'') | Some n \<Rightarrow> Inr n)))"

definition fx_Float64_is_0 :: "string \<Rightarrow> error + bool" where
  "fx_Float64_is_0 s = (case fx_parse s of Inl err \<Rightarrow> Inl err | Inr x \<Rightarrow> Inr (x = 0))"

definition fx_UnmarshalText :: "receiver \<Rightarrow> string \<Rightarrow> error + int" where
  "fx_UnmarshalText r s = fx_parse s"

definition fx_fixed :: "nat \<Rightarrow> int \<Rightarrow> string" where
  "fx_fixed n x =
     (let ds = Itoa_digits ((\<bar>x\<bar> * 10 ^ n) div 10 ^ 8);
          ds = replicate (Suc n - length ds) CHR ''0'' @ ds;
          ip = take (length ds - n) ds;
          fp = drop (length ds - n) ds
      in (if x < 0 then ''-'' else []) @ ip @ (if n = 0 then [] else CHR ''.'' # fp))"

definition fx_Sprintf :: "string \<Rightarrow> int \<Rightarrow> string" where
  "fx_Sprintf f x =
     (if take 2 f = ''%.'' \<and> drop (length f - 1) f = ''f''
      then (case digits_val 0 (take (length f - 3) (drop 2 f)) of
              Some n \<Rightarrow> fx_fixed (nat n) x
            | None \<Rightarrow> ''%!(BADPREC)'')
      else ''%!(NOVERB)'')"

definition fx_Cmp :: "int \<Rightarrow> int \<Rightarrow> int" where
  "fx_Cmp x y = (if x < y then - 1 else if x = y then 0 else 1)"

definition fx_New :: "int \<Rightarrow> int \<Rightarrow> int" where
  "fx_New v scale = (v * 10 ^ 8) div 10 ^ nat scale"

fun insert_by :: "('a \<Rightarrow> 'a \<Rightarrow> bool) \<Rightarrow> 'a \<Rightarrow> 'a list \<Rightarrow> 'a list" where
  "insert_by lt x [] = [x]"
| "insert_by lt x (y # ys) = (if lt x y then x # y # ys else y # insert_by lt x ys)"

fun insertion_sort :: "('a \<Rightarrow> 'a \<Rightarrow> bool) \<Rightarrow> 'a list \<Rightarrow> 'a list" where
  "insertion_sort lt [] = []"
| "insertion_sort lt (x # xs) = insert_by lt x (insertion_sort lt xs)"

definition fx :: "int library" where
  "fx = \<lparr> Float64_is_0 = fx_Float64_is_0, UnmarshalText = fx_UnmarshalText,
          Sprintf = fx_Sprintf, Cmp = fx_Cmp, New = fx_New, Sort = insertion_sort \<rparr>"

subsection \<open>A library with NaN and with exponents\<close>

text \<open>A second instance, for the values of the decimal library that the first one leaves
  out. A decimal is NaN or a number of \<open>10\<^sup>-\<^sup>8\<close> units together with a mark that its text
  was written with an exponent. The text \<open>NaN\<close> unmarshals to NaN without an error, and
  \<open>Cmp\<close> with a NaN on either side is \<open>0\<close>. A text \<open>MeN\<close> unmarshals to \<open>M\<close> times
  \<open>10\<^sup>N\<close>; such a number is printed without fractional digits at every precision, so
  that \<open>1e2\<close> and \<open>100\<close> compare equal and are printed \<open>100\<close> and \<open>100.0\<close> by \<open>%.1f\<close>.
  \<open>Sort\<close> is the insertion sort that \<open>sort.Sort\<close> runs on a slice of at most twelve
  elements: each element in turn is swapped with its left neighbour as long as it is
  \<open>Less\<close> than it (\<open>go_insertionSort\<close> keeps the part already sorted in reverse).\<close>

datatype dec = NaN | Dec int bool

definition dx_parse :: "string \<Rightarrow> error + dec" where
  "dx_parse s =
     (if s = ''NaN'' then Inr NaN
      else if CHR ''e'' \<in> set s
      then (case (fx_parse (takeWhile (\<lambda>c. c \<noteq> CHR ''e'') s),
                  digits_val 0 (drop 1 (dropWhile (\<lambda>c. c \<noteq> CHR ''e'') s))) of
              (Inr x, Some n) \<Rightarrow> Inr (Dec (x * 10 ^ nat n) True)
            | _ \<Rightarrow> Inl (Error ''syntax''))
      else (case fx_parse s of Inl err \<Rightarrow> Inl err | Inr x \<Rightarrow> Inr (Dec x False)))"

definition dx_UnmarshalText :: "receiver \<Rightarrow> string \<Rightarrow> error + dec" where
  "dx_UnmarshalText r s = dx_parse s"

definition dx_Sprintf :: "string \<Rightarrow> dec \<Rightarrow> string" where
  "dx_Sprintf f d =
     (case d of
        NaN \<Rightarrow> ''NaN''
      | Dec x True \<Rightarrow> fx_Sprintf ''%.0f'' x
      | Dec x False \<Rightarrow> fx_Sprintf f x)"

definition dx_Cmp :: "dec \<Rightarrow> dec \<Rightarrow> int" where
  "dx_Cmp a b = (case (a, b) of (Dec x _, Dec y _) \<Rightarrow> fx_Cmp x y | _ \<Rightarrow> 0)"

definition dx_New :: "int \<Rightarrow> int \<Rightarrow> dec" where
  "dx_New v scale = Dec (fx_New v scale) False"

fun go_insert :: "('a \<Rightarrow> 'a \<Rightarrow> bool) \<Rightarrow> 'a \<Rightarrow> 'a list \<Rightarrow> 'a list" where
  "go_insert lt x [] = [x]"
| "go_insert lt x (y # ys) = (if lt x y then y # go_insert lt x ys else x # y # ys)"

fun go_insertionSort :: "('a \<Rightarrow> 'a \<Rightarrow> bool) \<Rightarrow> 'a list \<Rightarrow> 'a list \<Rightarrow> 'a list" where
  "go_insertionSort lt acc [] = rev acc"
| "go_insertionSort lt acc (x # xs) = go_insertionSort lt (go_insert lt x acc) xs"

definition dx :: "dec library" where
  "dx = \<lparr> Float64_is_0 = fx_Float64_is_0, UnmarshalText = dx_UnmarshalText,
          Sprintf = dx_Sprintf, Cmp = dx_Cmp, New = dx_New,
          Sort = (\<lambda>lt xs. go_insertionSort lt [] xs) \<rparr>"

section \<open>Properties\<close>

subsection \<open>Fields that updates leave alone, and the loop\<close>

lemma applyUpdate_fields:
  assumes "applyUpdate L s upd = Return e s'"
  shows "o_sorted s' = o_sorted s \<and> o_depth s' = o_depth s \<and>
         o_pricePrecision s' = o_pricePrecision s \<and>
         o_volumePrecision s' = o_volumePrecision s \<and> o_isAsk s' = o_isAsk s"
  using assms
  by (auto simp: applyUpdate_def Let_def split: sum.splits if_splits)

lemma applyUpdates_loop_fields:
  "applyUpdates_loop L s updates = Return e s' \<Longrightarrow>
     o_sorted s' = o_sorted s \<and> o_depth s' = o_depth s \<and>
     o_pricePrecision s' = o_pricePrecision s \<and>
     o_volumePrecision s' = o_volumePrecision s \<and> o_isAsk s' = o_isAsk s"
proof (induction updates arbitrary: s)
  case Nil
  then show ?case by simp
next
  case (Cons u updates)
  show ?case
  proof (cases "applyUpdate L s u")
    case (Return e1 s1)
    note f = applyUpdate_fields [OF Return]
    show ?thesis
    proof (cases e1)
      case None
      with Cons.prems Return have "applyUpdates_loop L s1 updates = Return e s'" by simp
      from Cons.IH [OF this] f show ?thesis by simp
    next
      case (Some err)
      with Cons.prems Return have "s' = s1" by simp
      with f show ?thesis by simp
    qed
  next
    case Blocked
    with Cons.prems show ?thesis by simp
  next
    case Panic
    with Cons.prems show ?thesis by simp
  qed
qed

lemma applyUpdates_loop_append:
  "applyUpdates_loop L s pre = Return None s1 \<Longrightarrow>
   applyUpdates_loop L s (pre @ updates) = applyUpdates_loop L s1 updates"
proof (induction pre arbitrary: s)
  case Nil
  then show ?case by simp
next
  case (Cons u pre)
  then show ?case
    by (auto split: outcome.splits option.splits)
qed

lemma applyUpdate_parse_error:
  assumes "Float64_is_0 L (upd_Volume u) = Inl err \<or>
           (\<exists>z. Float64_is_0 L (upd_Volume u) = Inr z) \<and>
           UnmarshalText L (WithPrecision (o_pricePrecision s)) (upd_Price u) = Inl err"
  shows "applyUpdate L s u = Return (Some err) s"
  using assms by (auto simp: applyUpdate_def)

lemma applyUpdate_insert:
  assumes "Float64_is_0 L (upd_Volume upd) = Inr False"
    and "UnmarshalText L (WithPrecision (o_pricePrecision s)) (upd_Price upd) = Inr price"
    and "UnmarshalText L ZeroBig (upd_Price upd) = Inr v"
    and "\<not> o_mx s"
  shows "applyUpdate L s upd =
           Return None (s\<lparr>o_m := (o_m s)(stringFixed L price (o_pricePrecision s) \<mapsto>
                                        \<lparr>Price = price, Volume = v\<rparr>)\<rparr>)"
  using assms by (simp add: applyUpdate_def Let_def)

lemma applyUpdate_delete:
  assumes "Float64_is_0 L (upd_Volume upd) = Inr True"
    and "UnmarshalText L (WithPrecision (o_pricePrecision s)) (upd_Price upd) = Inr price"
    and "\<not> o_mx s"
  shows "applyUpdate L s upd =
           Return None (s\<lparr>o_m := (o_m s)(stringFixed L price (o_pricePrecision s) := None)\<rparr>)"
  using assms by (simp add: applyUpdate_def Let_def)

text \<open>Values of the fixed-point library.\<close>

lemma fx_7: "Float64_is_0 fx ''7'' = Inr False"
  by code_simp

lemma fx_0: "Float64_is_0 fx ''0'' = Inr True"
  by code_simp

lemma fx_bad: "Float64_is_0 fx ''seven'' = Inl (Error ''syntax'')"
  by code_simp

lemma fx_price_15: "UnmarshalText fx r ''1.5'' = Inr 150000000"
  by (cases r; code_simp)

lemma fx_key_15: "stringFixed fx 150000000 1 = ''1.5''"
  by code_simp

subsection \<open>The level an update stores\<close>

text \<open>Claim C1 says that an update with a volume other than zero stores the rounded price
  with the supplied volume, so that \<open>Get\<close> on that price returns the supplied volume.
  The source unmarshals the stored volume from \<open>upd.Price.String()\<close>: for every library,
  \<open>Get\<close> after the update returns the number read from the text of the price, found =
  true, whatever the text of the volume is.\<close>


theorem applyUpdate_stores_price_text:
  assumes "Float64_is_0 L (upd_Volume upd) = Inr False"
    and "UnmarshalText L (WithPrecision (o_pricePrecision s)) (upd_Price upd) = Inr price"
    and "UnmarshalText L ZeroBig (upd_Price upd) = Inr v"
    and "\<not> o_mx s"
  shows "\<exists>s'. applyUpdate L s upd = Return None s' \<and> Get L s' price = Some (v, True)"
  using assms by (simp add: applyUpdate_def Get_def Let_def)

theorem applyUpdate_stores_price_text_witness:
  "Float64_is_0 fx ''7'' = Inr False \<and>
   UnmarshalText fx (WithPrecision 1) ''1.5'' = Inr 150000000 \<and>
   UnmarshalText fx ZeroBig ''1.5'' = Inr 150000000 \<and>
   UnmarshalText fx ZeroBig ''7'' = Inr 700000000 \<and>
   (\<exists>s'. applyUpdate fx (newOrderBookSide 2 1 0 True)
            \<lparr>upd_Price = ''1.5'', upd_Volume = ''7''\<rparr> = Return None s' \<and>
         Get fx s' 150000000 = Some (150000000, True))"
proof -
  let ?u = "\<lparr>upd_Price = ''1.5'', upd_Volume = ''7''\<rparr>"
  let ?s = "newOrderBookSide 2 1 0 True :: int OrderBookSide"
  have d: "UnmarshalText fx ZeroBig ''7'' = Inr 700000000" by code_simp
  have h1: "Float64_is_0 fx (upd_Volume ?u) = Inr False" using fx_7 by simp
  have h2: "UnmarshalText fx (WithPrecision (o_pricePrecision ?s)) (upd_Price ?u) = Inr 150000000"
    by (simp add: fx_price_15)
  have h3: "UnmarshalText fx ZeroBig (upd_Price ?u) = Inr 150000000"
    by (simp add: fx_price_15)
  have h4: "\<not> o_mx ?s" by (simp add: newOrderBookSide_def)
  note applyUpdate_stores_price_text [OF h1 h2 h3 h4]
  with fx_7 fx_price_15 d show ?thesis by blast
qed

subsection \<open>A batch with an update that does not parse\<close>

text \<open>Claim C6: when the updates before \<open>u\<close> are applied and the volume or the price of
  \<open>u\<close> does not parse, \<open>applyUpdates\<close> returns that error, whatever follows \<open>u\<close>; the
  side it leaves is the one the preceding updates produced (no level is sorted or
  deleted), and \<open>o.sorted\<close> is what it was before the batch.\<close>


theorem applyUpdates_first_error:
  assumes pre: "applyUpdates_loop L s pre = Return None s1"
    and fail: "Float64_is_0 L (upd_Volume u) = Inl err \<or>
           (\<exists>z. Float64_is_0 L (upd_Volume u) = Inr z) \<and>
           UnmarshalText L (WithPrecision (o_pricePrecision s)) (upd_Price u) = Inl err"
  shows "applyUpdates L ks s (pre @ u # post) = Return (Some err) s1 \<and>
         o_sorted s1 = o_sorted s"
proof -
  from applyUpdates_loop_fields [OF pre]
  have f: "o_sorted s1 = o_sorted s" "o_pricePrecision s1 = o_pricePrecision s" by simp_all
  from fail f have "applyUpdate L s1 u = Return (Some err) s1"
    by (intro applyUpdate_parse_error) simp
  then have "applyUpdates_loop L s1 (u # post) = Return (Some err) s1" by simp
  with applyUpdates_loop_append [OF pre, of "u # post"]
  have "applyUpdates_loop L s (pre @ u # post) = Return (Some err) s1" by simp
  then show ?thesis using f by (simp add: applyUpdates_def)
qed

theorem applyUpdates_first_error_witness:
  "Float64_is_0 fx ''seven'' = Inl (Error ''syntax'') \<and>
   (\<exists>s1. applyUpdates_loop fx (newOrderBookSide 2 1 0 True)
            [\<lparr>upd_Price = ''1.5'', upd_Volume = ''7''\<rparr>] = Return None s1 \<and>
      applyUpdates fx [''1.5''] (newOrderBookSide 2 1 0 True)
          [\<lparr>upd_Price = ''1.5'', upd_Volume = ''7''\<rparr>,
           \<lparr>upd_Price = ''2.5'', upd_Volume = ''seven''\<rparr>,
           \<lparr>upd_Price = ''3.5'', upd_Volume = ''7''\<rparr>]
        = Return (Some (Error ''syntax'')) s1 \<and>
      o_m s1 ''1.5'' = Some \<lparr>Price = 150000000, Volume = 150000000\<rparr> \<and>
      o_sorted s1 = o_sorted (newOrderBookSide 2 1 0 True :: int OrderBookSide))"
proof -
  let ?s = "newOrderBookSide 2 1 0 True :: int OrderBookSide"
  let ?u1 = "\<lparr>upd_Price = ''1.5'', upd_Volume = ''7''\<rparr>"
  let ?u2 = "\<lparr>upd_Price = ''2.5'', upd_Volume = ''seven''\<rparr>"
  let ?u3 = "\<lparr>upd_Price = ''3.5'', upd_Volume = ''7''\<rparr>"
  let ?s1 = "?s\<lparr>o_m := [''1.5'' \<mapsto> \<lparr>Price = 150000000, Volume = 150000000\<rparr>]\<rparr>"
  have "applyUpdate fx ?s ?u1 =
          Return None (?s\<lparr>o_m := (o_m ?s)(stringFixed fx 150000000 (o_pricePrecision ?s) \<mapsto>
                                        \<lparr>Price = 150000000, Volume = 150000000\<rparr>)\<rparr>)"
    by (rule applyUpdate_insert) (simp_all add: fx_7 fx_price_15 newOrderBookSide_def)
  then have "applyUpdate fx ?s ?u1 = Return None ?s1"
    by (simp add: newOrderBookSide_def fx_key_15)
  then have pre: "applyUpdates_loop fx ?s [?u1] = Return None ?s1" by simp
  have fail: "Float64_is_0 fx (upd_Volume ?u2) = Inl (Error ''syntax'') \<or>
           (\<exists>z. Float64_is_0 fx (upd_Volume ?u2) = Inr z) \<and>
           UnmarshalText fx (WithPrecision (o_pricePrecision ?s)) (upd_Price ?u2)
             = Inl (Error ''syntax'')"
    by (simp add: fx_bad)
  have so: "o_sorted ?s1 = o_sorted ?s" by simp
  have m: "o_m ?s1 ''1.5'' = Some \<lparr>Price = 150000000, Volume = 150000000\<rparr>" by simp
  from applyUpdates_first_error [OF pre fail, of "[''1.5'']" "[?u3]"]
  have "applyUpdates fx [''1.5''] ?s ([?u1] @ ?u2 # [?u3]) = Return (Some (Error ''syntax'')) ?s1"
    by (rule conjunct1)
  then have r: "applyUpdates fx [''1.5''] ?s [?u1, ?u2, ?u3] = Return (Some (Error ''syntax'')) ?s1"
    by (simp only: append.simps)
  from pre r m so
  have "\<exists>s1. applyUpdates_loop fx ?s [?u1] = Return None s1 \<and>
      applyUpdates fx [''1.5''] ?s [?u1, ?u2, ?u3] = Return (Some (Error ''syntax'')) s1 \<and>
      o_m s1 ''1.5'' = Some \<lparr>Price = 150000000, Volume = 150000000\<rparr> \<and>
      o_sorted s1 = o_sorted ?s"
    by (intro exI [of _ ?s1] conjI)
  with fx_bad show ?thesis by (intro conjI)
qed


text \<open>The third return of \<open>applyUpdate\<close>: the text of the price is unmarshalled a second
  time, for the volume; when that fails the function returns with the mutex held, and the
  next call that takes the mutex does not return.\<close>

lemma applyUpdate_error_holds_mutex:
  assumes "Float64_is_0 L (upd_Volume upd) = Inr False"
    and "UnmarshalText L (WithPrecision (o_pricePrecision s)) (upd_Price upd) = Inr price"
    and "UnmarshalText L ZeroBig (upd_Price upd) = Inl err"
    and "\<not> o_mx s"
  shows "applyUpdate L s upd = Return (Some err) (s\<lparr>o_mx := True\<rparr>)"
    and "Get L (s\<lparr>o_mx := True\<rparr>) p = None"
    and "applyUpdates L ks (s\<lparr>o_mx := True\<rparr>) [] = Blocked"
  using assms by (simp_all add: applyUpdate_def Get_def applyUpdates_def Let_def)

subsection \<open>An update with volume zero\<close>

text \<open>Claim C7: an update with volume zero deletes the key of its price from the map and
  returns no error; when the key is absent the side is unchanged; \<open>Get\<close> on a price with
  that key then returns \<open>decimal.New(0, 0)\<close> and found = false.\<close>


theorem applyUpdate_zero_volume:
  assumes "Float64_is_0 L (upd_Volume upd) = Inr True"
    and "UnmarshalText L (WithPrecision (o_pricePrecision s)) (upd_Price upd) = Inr price"
    and "\<not> o_mx s"
    and "stringFixed L p (o_pricePrecision s) = stringFixed L price (o_pricePrecision s)"
  shows "\<exists>s'. applyUpdate L s upd = Return None s' \<and>
           s' = s\<lparr>o_m := (o_m s)(stringFixed L price (o_pricePrecision s) := None)\<rparr> \<and>
           (o_m s (stringFixed L price (o_pricePrecision s)) = None \<longrightarrow> s' = s) \<and>
           Get L s' p = Some (New L 0 0, False)"
  using assms by (simp add: applyUpdate_def Get_def Let_def fun_upd_idem)

theorem applyUpdate_zero_volume_witness:
  "o_m ((newOrderBookSide 2 1 0 True)
         \<lparr>o_m := [''1.5'' \<mapsto> \<lparr>Price = 150000000 :: int, Volume = 150000000\<rparr>]\<rparr>) ''1.5''
     = Some \<lparr>Price = 150000000, Volume = 150000000\<rparr> \<and>
   Float64_is_0 fx ''0'' = Inr True \<and>
   UnmarshalText fx (WithPrecision 1) ''1.5'' = Inr 150000000 \<and>
   stringFixed fx 150000000 1 = ''1.5'' \<and>
   (\<exists>s'. applyUpdate fx ((newOrderBookSide 2 1 0 True)
              \<lparr>o_m := [''1.5'' \<mapsto> \<lparr>Price = 150000000, Volume = 150000000\<rparr>]\<rparr>)
            \<lparr>upd_Price = ''1.5'', upd_Volume = ''0''\<rparr> = Return None s' \<and>
         o_m s' ''1.5'' = None \<and>
         Get fx s' 150000000 = Some (New fx 0 0, False))"
proof -
  let ?s = "(newOrderBookSide 2 1 0 True)
         \<lparr>o_m := [''1.5'' \<mapsto> \<lparr>Price = 150000000 :: int, Volume = 150000000\<rparr>]\<rparr>"
  let ?u = "\<lparr>upd_Price = ''1.5'', upd_Volume = ''0''\<rparr>"
  have h1: "Float64_is_0 fx (upd_Volume ?u) = Inr True" by (simp add: fx_0)
  have h2: "UnmarshalText fx (WithPrecision (o_pricePrecision ?s)) (upd_Price ?u) = Inr 150000000"
    by (simp add: fx_price_15)
  have h3: "\<not> o_mx ?s" by (simp add: newOrderBookSide_def)
  have h4: "stringFixed fx 150000000 (o_pricePrecision ?s)
              = stringFixed fx 150000000 (o_pricePrecision ?s)" ..
  have k: "stringFixed fx 150000000 (o_pricePrecision ?s) = ''1.5''"
    by (simp add: newOrderBookSide_def fx_key_15)
  from applyUpdate_zero_volume [OF h1 h2 h3 h4]
  obtain s' where "applyUpdate fx ?s ?u = Return None s'"
    and "s' = ?s\<lparr>o_m := (o_m ?s)(stringFixed fx 150000000 (o_pricePrecision ?s) := None)\<rparr>"
    and "Get fx s' 150000000 = Some (New fx 0 0, False)"
    by blast
  moreover from this k have "o_m s' ''1.5'' = None" by simp
  ultimately have "\<exists>s'. applyUpdate fx ?s ?u = Return None s' \<and> o_m s' ''1.5'' = None \<and>
         Get fx s' 150000000 = Some (New fx 0 0, False)" by blast
  moreover have "o_m ?s ''1.5'' = Some \<lparr>Price = 150000000, Volume = 150000000\<rparr>" by simp
  ultimately show ?thesis using fx_0 fx_price_15 fx_key_15 by blast
qed


subsection \<open>Sorting: the fixed-point library keeps the contracts\<close>

lemma mset_insert_by: "mset (insert_by lt x xs) = add_mset x (mset xs)"
  by (induction xs) simp_all

lemma mset_insertion_sort: "mset (insertion_sort lt xs) = mset xs"
  by (induction xs) (simp_all add: mset_insert_by)

lemma set_insert_by: "set (insert_by lt x xs) = insert x (set xs)"
  using mset_insert_by [of lt x xs, THEN arg_cong, of set_mset] by simp

lemma sorted_insert_by:
  assumes wo: "weak_order lt" and srt: "sorted_wrt (\<lambda>a b. \<not> lt b a) xs"
  shows "sorted_wrt (\<lambda>a b. \<not> lt b a) (insert_by lt x xs)"
  using srt
proof (induction xs)
  case Nil
  show ?case by simp
next
  case (Cons y ys)
  from wo have asym: "\<And>a b. lt a b \<Longrightarrow> \<not> lt b a"
    and trans: "\<And>a b c. \<not> lt b a \<Longrightarrow> \<not> lt c b \<Longrightarrow> \<not> lt c a"
    unfolding weak_order_def by blast+
  from Cons.prems have y_ys: "\<forall>z\<in>set ys. \<not> lt z y" and s_ys: "sorted_wrt (\<lambda>a b. \<not> lt b a) ys"
    by simp_all
  show ?case
  proof (cases "lt x y")
    case True
    then have "\<not> lt y x" by (rule asym)
    moreover have "\<forall>z\<in>set ys. \<not> lt z x"
      using y_ys \<open>\<not> lt y x\<close> trans by blast
    ultimately show ?thesis using True Cons.prems by simp
  next
    case False
    with Cons.IH [OF s_ys] y_ys show ?thesis
      by (simp add: set_insert_by)
  qed
qed

lemma sorted_insertion_sort:
  "weak_order lt \<Longrightarrow> sorted_wrt (\<lambda>a b. \<not> lt b a) (insertion_sort lt xs)"
  by (induction xs) (simp_all add: sorted_insert_by)

lemma sort_ok_fx: "sort_ok fx"
  by (simp add: sort_ok_def fx_def mset_insertion_sort sorted_insertion_sort)

lemma cmp_on_subset: "cmp_on L P \<Longrightarrow> Q \<subseteq> P \<Longrightarrow> cmp_on L Q"
  unfolding cmp_on_def by (meson subsetD)

lemma weak_order_on_subset: "weak_order_on A lt \<Longrightarrow> B \<subseteq> A \<Longrightarrow> weak_order_on B lt"
  unfolding weak_order_on_def by (meson subsetD)

lemma sorted_insert_by_on:
  assumes wo: "weak_order_on A lt" and x: "x \<in> A" and sub: "set xs \<subseteq> A"
    and srt: "sorted_wrt (\<lambda>a b. \<not> lt b a) xs"
  shows "sorted_wrt (\<lambda>a b. \<not> lt b a) (insert_by lt x xs)"
  using sub srt
proof (induction xs)
  case Nil
  show ?case by simp
next
  case (Cons y ys)
  from wo have asym: "\<And>a b. a \<in> A \<Longrightarrow> b \<in> A \<Longrightarrow> lt a b \<Longrightarrow> \<not> lt b a"
    and trans: "\<And>a b c. a \<in> A \<Longrightarrow> b \<in> A \<Longrightarrow> c \<in> A \<Longrightarrow> \<not> lt b a \<Longrightarrow> \<not> lt c b \<Longrightarrow> \<not> lt c a"
    unfolding weak_order_on_def by blast+
  from Cons.prems have y: "y \<in> A" and ys: "set ys \<subseteq> A"
    and y_ys: "\<forall>z\<in>set ys. \<not> lt z y" and s_ys: "sorted_wrt (\<lambda>a b. \<not> lt b a) ys"
    by simp_all
  show ?case
  proof (cases "lt x y")
    case True
    then have xy: "\<not> lt y x" using asym x y by blast
    have "\<forall>z\<in>set ys. \<not> lt z x"
    proof
      fix z assume z: "z \<in> set ys"
      with ys have "z \<in> A" by blast
      from trans [OF x y this xy] y_ys z show "\<not> lt z x" by blast
    qed
    with xy True Cons.prems show ?thesis by simp
  next
    case False
    with Cons.IH [OF ys s_ys] y_ys show ?thesis
      by (simp add: set_insert_by)
  qed
qed

lemma sorted_insertion_sort_on:
  "weak_order_on A lt \<Longrightarrow> set xs \<subseteq> A \<Longrightarrow>
   sorted_wrt (\<lambda>a b. \<not> lt b a) (insertion_sort lt xs)"
proof (induction xs)
  case Nil
  show ?case by simp
next
  case (Cons x xs)
  have "set (insertion_sort lt xs) = set xs"
    using mset_insertion_sort [of lt xs, THEN arg_cong, of set_mset] by simp
  with Cons show ?case
    by (simp add: sorted_insert_by_on [where A = A])
qed

lemma sort_sorts_fx: "sort_sorts fx"
  unfolding sort_sorts_def
  by (auto simp: fx_def intro: sorted_insertion_sort_on)

lemma cmp_on_fx: "cmp_on fx P"
  by (simp add: cmp_on_def fx_def fx_Cmp_def)

subsection \<open>Sorting: the second library\<close>

lemma mset_go_insert: "mset (go_insert lt x ys) = add_mset x (mset ys)"
  by (induction ys) simp_all

lemma mset_go_insertionSort: "mset (go_insertionSort lt acc xs) = mset acc + mset xs"
  by (induction xs arbitrary: acc) (simp_all add: mset_go_insert)

lemma set_go_insert: "set (go_insert lt x ys) = insert x (set ys)"
  using mset_go_insert [of lt x ys, THEN arg_cong, of set_mset] by simp

lemma sorted_go_insert:
  assumes wo: "weak_order_on A lt" and x: "x \<in> A" and sub: "set ys \<subseteq> A"
    and srt: "sorted_wrt (\<lambda>a b. \<not> lt a b) ys"
  shows "sorted_wrt (\<lambda>a b. \<not> lt a b) (go_insert lt x ys)"
  using sub srt
proof (induction ys)
  case Nil
  show ?case by simp
next
  case (Cons y ys)
  from wo have asym: "\<And>a b. a \<in> A \<Longrightarrow> b \<in> A \<Longrightarrow> lt a b \<Longrightarrow> \<not> lt b a"
    and trans: "\<And>a b c. a \<in> A \<Longrightarrow> b \<in> A \<Longrightarrow> c \<in> A \<Longrightarrow> \<not> lt b a \<Longrightarrow> \<not> lt c b \<Longrightarrow> \<not> lt c a"
    unfolding weak_order_on_def by blast+
  from Cons.prems have y: "y \<in> A" and ys: "set ys \<subseteq> A"
    and y_ys: "\<forall>z\<in>set ys. \<not> lt y z" and s_ys: "sorted_wrt (\<lambda>a b. \<not> lt a b) ys"
    by simp_all
  show ?case
  proof (cases "lt x y")
    case True
    then have "\<not> lt y x" using asym x y by blast
    with True Cons.IH [OF ys s_ys] y_ys show ?thesis
      by (simp add: set_go_insert)
  next
    case False
    have "\<forall>z\<in>set ys. \<not> lt x z"
    proof
      fix z assume z: "z \<in> set ys"
      with ys have "z \<in> A" by blast
      from trans [OF this y x] y_ys z False show "\<not> lt x z" by blast
    qed
    with False Cons.prems show ?thesis by simp
  qed
qed

lemma sorted_go_insertionSort:
  "weak_order_on A lt \<Longrightarrow> set acc \<subseteq> A \<Longrightarrow> set xs \<subseteq> A \<Longrightarrow>
   sorted_wrt (\<lambda>a b. \<not> lt a b) acc \<Longrightarrow>
   sorted_wrt (\<lambda>a b. \<not> lt b a) (go_insertionSort lt acc xs)"
proof (induction xs arbitrary: acc)
  case Nil
  then show ?case by (simp add: sorted_wrt_rev)
next
  case (Cons x xs)
  from Cons.prems have "sorted_wrt (\<lambda>a b. \<not> lt a b) (go_insert lt x acc)"
    by (intro sorted_go_insert [where A = A]) simp_all
  moreover from Cons.prems have "set (go_insert lt x acc) \<subseteq> A"
    by (simp add: set_go_insert)
  ultimately show ?case using Cons.prems Cons.IH by simp
qed

lemma weak_order_on_UNIV: "weak_order lt \<Longrightarrow> weak_order_on A lt"
  unfolding weak_order_def weak_order_on_def by blast

lemma sort_sorts_dx: "sort_sorts dx"
  unfolding sort_sorts_def
  by (auto simp: dx_def intro: sorted_go_insertionSort)

lemma sort_ok_dx: "sort_ok dx"
  unfolding sort_ok_def
  by (auto simp: dx_def mset_go_insertionSort
      intro: sorted_go_insertionSort [where A = UNIV] weak_order_on_UNIV)

subsection \<open>The order of a side\<close>

lemma side_not_below:
  assumes cmp: "cmp_on L P" and a: "Price a \<in> P" and b: "Price b \<in> P"
  shows "(\<not> (if asc then byPrice_Less L else Reverse (byPrice_Less L)) b a) =
         (if asc then Cmp L (Price a) (Price b) \<le> 0 else 0 \<le> Cmp L (Price a) (Price b))"
proof -
  from cmp a b have "Cmp L (Price a) (Price b) = - 1 \<or> Cmp L (Price a) (Price b) = 0 \<or>
      Cmp L (Price a) (Price b) = 1"
    and "Cmp L (Price b) (Price a) = - Cmp L (Price a) (Price b)"
    unfolding cmp_on_def by blast+
  then show ?thesis by (auto simp: byPrice_Less_def Reverse_def)
qed

lemma weak_order_on_side:
  assumes cmp: "cmp_on L (Price ` A)"
  shows "weak_order_on A (if asc then byPrice_Less L else Reverse (byPrice_Less L))"
proof -
  let ?lt = "if asc then byPrice_Less L else Reverse (byPrice_Less L)"
  let ?le = "\<lambda>a b. if asc then Cmp L (Price a) (Price b) \<le> 0 else 0 \<le> Cmp L (Price a) (Price b)"
  have nb: "(\<not> ?lt b a) = ?le a b" if "a \<in> A" "b \<in> A" for a b
    using that by (intro side_not_below [OF cmp]) simp_all
  from cmp have neg: "\<And>a b. a \<in> A \<Longrightarrow> b \<in> A \<Longrightarrow>
      Cmp L (Price b) (Price a) = - Cmp L (Price a) (Price b)"
    and trans: "\<And>a b c. a \<in> A \<Longrightarrow> b \<in> A \<Longrightarrow> c \<in> A \<Longrightarrow>
      Cmp L (Price a) (Price b) \<le> 0 \<Longrightarrow> Cmp L (Price b) (Price c) \<le> 0 \<Longrightarrow>
      Cmp L (Price a) (Price c) \<le> 0"
    unfolding cmp_on_def by blast+
  show ?thesis
    unfolding weak_order_on_def
  proof (intro conjI ballI impI)
    fix a b assume ab: "a \<in> A" "b \<in> A" and "?lt a b"
    then show "\<not> ?lt b a"
      using neg [OF ab] by (auto simp: byPrice_Less_def Reverse_def split: if_splits)
  next
    fix a b c assume abc: "a \<in> A" "b \<in> A" "c \<in> A" and "\<not> ?lt b a \<and> \<not> ?lt c b"
    then have "?le a b" "?le b c" using nb by blast+
    then have "?le a c"
      using trans [of a b c] trans [of c b a] neg [of a b] neg [of b c] neg [of a c] abc
      by (auto split: if_splits)
    then show "\<not> ?lt c a" using nb abc by blast
  qed
qed

lemma side_total_on:
  assumes cmp: "cmp_on L P" and a: "Price a \<in> P" and b: "Price b \<in> P"
    and ne: "Cmp L (Price a) (Price b) \<noteq> 0"
  shows "(if asc then byPrice_Less L else Reverse (byPrice_Less L)) a b \<or>
         (if asc then byPrice_Less L else Reverse (byPrice_Less L)) b a"
proof -
  from cmp a b have "Cmp L (Price a) (Price b) = - 1 \<or> Cmp L (Price a) (Price b) = 0 \<or>
      Cmp L (Price a) (Price b) = 1"
    and "Cmp L (Price b) (Price a) = - Cmp L (Price a) (Price b)"
    unfolding cmp_on_def by blast+
  with ne show ?thesis by (auto simp: byPrice_Less_def Reverse_def)
qed

subsection \<open>The levels of the map, in range order and sorted\<close>

lemma range_values_map:
  "set ks \<subseteq> dom mp \<Longrightarrow> range_values mp ks = map (\<lambda>k. the (mp k)) ks"
  by (induction ks) auto

lemma set_range_values: "set (range_values mp ks) = {v. \<exists>k\<in>set ks. mp k = Some v}"
  by (induction ks) (auto split: option.splits)

lemma distinct_range_values:
  assumes "distinct ks" and "\<And>k k' v. mp k = Some v \<Longrightarrow> mp k' = Some v \<Longrightarrow> k = k'"
  shows "distinct (range_values mp ks)"
  using assms(1)
proof (induction ks)
  case Nil
  show ?case by simp
next
  case (Cons k ks)
  then show ?case
    using assms(2) by (auto simp: set_range_values split: option.splits)
qed

lemma length_range_values: "range_order mp ks \<Longrightarrow> length (range_values mp ks) = card (dom mp)"
  by (simp add: range_order_def range_values_map distinct_card [symmetric])

lemma delete_levels_apply:
  "delete_levels L pp ls mp k =
     (if k \<in> (\<lambda>level. stringFixed L (Price level) pp) ` set ls then None else mp k)"
  by (induction ls arbitrary: mp) auto

lemma mset_newOrderBookLevels:
  "sort_ok L \<Longrightarrow> mset (newOrderBookLevels L ks mp asc) = mset (range_values mp ks)"
  by (simp add: newOrderBookLevels_def sort_ok_def Let_def)

lemma length_newOrderBookLevels:
  assumes "sort_ok L" and "range_order mp ks"
  shows "length (newOrderBookLevels L ks mp asc) = card (dom mp)"
  using mset_newOrderBookLevels [OF assms(1), of ks mp asc, THEN arg_cong, of size]
        length_range_values [OF assms(2)]
  by simp

lemma set_newOrderBookLevels:
  assumes "sort_ok L"
  shows "set (newOrderBookLevels L ks mp asc) = set (range_values mp ks)"
  using mset_newOrderBookLevels [OF assms, of ks mp asc, THEN arg_cong, of set_mset] by simp

lemma distinct_newOrderBookLevels:
  assumes "sort_ok L"
  shows "distinct (newOrderBookLevels L ks mp asc) = distinct (range_values mp ks)"
  using mset_newOrderBookLevels [OF assms, of ks mp asc] by (rule mset_eq_imp_distinct_iff)

lemma applyUpdates_Return:
  assumes "applyUpdates_loop L s updates = Return None s1" and "\<not> o_mx s1"
    and "newOrderBookLevels L ks (o_m s1) (o_isAsk s1) = lv"
    and "0 \<le> o_depth s1" and "o_depth s1 \<le> int (length lv)"
  shows "applyUpdates L ks s updates =
           Return None (s1\<lparr>o_m := delete_levels L (o_pricePrecision s1)
                                    (drop (nat (o_depth s1)) lv) (o_m s1),
                            o_sorted := take (nat (o_depth s1)) lv\<rparr>)"
  using assms by (simp add: applyUpdates_def Let_def)

lemma applyUpdates_Return_None:
  assumes "applyUpdates L ks s updates = Return None s'"
  obtains s1 where "applyUpdates_loop L s updates = Return None s1" and "\<not> o_mx s1"
    and "0 \<le> o_depth s1"
    and "o_depth s1 \<le> int (length (newOrderBookLevels L ks (o_m s1) (o_isAsk s1)))"
    and "s' = s1\<lparr>o_m := delete_levels L (o_pricePrecision s1)
                           (drop (nat (o_depth s1))
                              (newOrderBookLevels L ks (o_m s1) (o_isAsk s1))) (o_m s1),
                   o_sorted := take (nat (o_depth s1))
                                 (newOrderBookLevels L ks (o_m s1) (o_isAsk s1))\<rparr>"
  using assms
  by (auto simp: applyUpdates_def Let_def split: outcome.splits option.splits if_splits)

lemma keys_ok_applyUpdate:
  assumes "applyUpdate L s upd = Return e s'" and "keys_ok L s"
  shows "keys_ok L s'"
  using assms
  by (auto simp: applyUpdate_def Let_def keys_ok_def split: sum.splits if_splits)

lemma keys_ok_loop:
  "applyUpdates_loop L s updates = Return e s' \<Longrightarrow> keys_ok L s \<Longrightarrow> keys_ok L s'"
proof (induction updates arbitrary: s)
  case Nil
  then show ?case by simp
next
  case (Cons u updates)
  then show ?case
    by (auto split: outcome.splits option.splits dest: keys_ok_applyUpdate)
qed

lemma keys_ok_newOrderBookSide: "keys_ok L (newOrderBookSide d pp vp a)"
  by (simp add: keys_ok_def newOrderBookSide_def)

lemma keys_ok_applyUpdates:
  assumes "applyUpdates L ks s updates = Return e s'" and "keys_ok L s"
  shows "keys_ok L s'"
proof (cases e)
  case None
  with assms(1) obtain s1 where loop: "applyUpdates_loop L s updates = Return None s1"
    and s': "s' = s1\<lparr>o_m := delete_levels L (o_pricePrecision s1)
                           (drop (nat (o_depth s1))
                              (newOrderBookLevels L ks (o_m s1) (o_isAsk s1))) (o_m s1),
                   o_sorted := take (nat (o_depth s1))
                                 (newOrderBookLevels L ks (o_m s1) (o_isAsk s1))\<rparr>"
    by (auto elim!: applyUpdates_Return_None)
  from keys_ok_loop [OF loop assms(2)] show ?thesis
    unfolding s' keys_ok_def by (auto simp: delete_levels_apply split: if_splits)
next
  case (Some err)
  with assms(1) have "applyUpdates_loop L s updates = Return (Some err) s'"
    by (auto simp: applyUpdates_def Let_def split: outcome.splits option.splits if_splits)
  from keys_ok_loop [OF this assms(2)] show ?thesis .
qed

lemma newOrderBookLevels_Sort:
  "newOrderBookLevels L ks mp asc =
     Sort L (if asc then byPrice_Less L else Reverse (byPrice_Less L)) (range_values mp ks)"
  by (simp add: newOrderBookLevels_def Let_def)

lemma range_values_ran: "set (range_values mp ks) \<subseteq> ran mp"
  by (auto simp: set_range_values ran_def)

lemma sorted_levels_on:
  assumes perm: "sort_ok L" and srt: "sort_sorts L" and cmp: "cmp_on L (Price ` ran mp)"
  shows "sorted_wrt (\<lambda>a b. \<not> (if asc then byPrice_Less L else Reverse (byPrice_Less L)) b a)
           (newOrderBookLevels L ks mp asc)"
    and "set (newOrderBookLevels L ks mp asc) \<subseteq> ran mp"
proof -
  have "weak_order_on (ran mp) (if asc then byPrice_Less L else Reverse (byPrice_Less L))"
    by (rule weak_order_on_side [OF cmp])
  then have "weak_order_on (set (range_values mp ks))
      (if asc then byPrice_Less L else Reverse (byPrice_Less L))"
    using range_values_ran by (rule weak_order_on_subset)
  with srt show "sorted_wrt (\<lambda>a b. \<not> (if asc then byPrice_Less L else Reverse (byPrice_Less L)) b a)
           (newOrderBookLevels L ks mp asc)"
    unfolding sort_sorts_def newOrderBookLevels_Sort by blast
  show "set (newOrderBookLevels L ks mp asc) \<subseteq> ran mp"
    using range_values_ran [of mp ks] by (simp add: set_newOrderBookLevels [OF perm])
qed

subsection \<open>Runs of the fixed-point library\<close>

lemma newOrderBookSide_sel [simp]:
  "o_m (newOrderBookSide d pp vp a) = Map.empty"
  "o_sorted (newOrderBookSide d pp vp a) = []"
  "o_depth (newOrderBookSide d pp vp a) = d"
  "o_pricePrecision (newOrderBookSide d pp vp a) = pp"
  "o_volumePrecision (newOrderBookSide d pp vp a) = vp"
  "o_isAsk (newOrderBookSide d pp vp a) = a"
  "o_mx (newOrderBookSide d pp vp a) = False"
  by (simp_all add: newOrderBookSide_def)

lemma applyUpdate_insert_key:
  assumes "Float64_is_0 L (upd_Volume upd) = Inr False"
    and "UnmarshalText L (WithPrecision (o_pricePrecision s)) (upd_Price upd) = Inr price"
    and "UnmarshalText L ZeroBig (upd_Price upd) = Inr v"
    and "\<not> o_mx s"
    and "stringFixed L price (o_pricePrecision s) = k"
  shows "applyUpdate L s upd = Return None (s\<lparr>o_m := (o_m s)(k \<mapsto> \<lparr>Price = price, Volume = v\<rparr>)\<rparr>)"
  using assms by (simp add: applyUpdate_def Let_def)

lemma fx_5: "Float64_is_0 fx ''5'' = Inr False"
  by code_simp

lemma fx_price_10: "UnmarshalText fx r ''1.0'' = Inr 100000000"
  by (cases r; code_simp)

lemma fx_price_20: "UnmarshalText fx r ''2.0'' = Inr 200000000"
  by (cases r; code_simp)

lemma fx_price_30: "UnmarshalText fx r ''3.0'' = Inr 300000000"
  by (cases r; code_simp)

lemma fx_key_10: "stringFixed fx 100000000 1 = ''1.0''"
  by code_simp

lemma fx_key_20: "stringFixed fx 200000000 1 = ''2.0''"
  by code_simp

lemma fx_key_30: "stringFixed fx 300000000 1 = ''3.0''"
  by code_simp

lemma fx_levels_asc:
  "newOrderBookLevels fx [''3.0'', ''1.0'', ''2.0'']
     [''1.0'' \<mapsto> \<lparr>Price = 100000000, Volume = 100000000\<rparr>,
      ''2.0'' \<mapsto> \<lparr>Price = 200000000, Volume = 200000000\<rparr>,
      ''3.0'' \<mapsto> \<lparr>Price = 300000000, Volume = 300000000\<rparr>] True
   = [\<lparr>Price = 100000000, Volume = 100000000\<rparr>,
      \<lparr>Price = 200000000, Volume = 200000000\<rparr>,
      \<lparr>Price = 300000000, Volume = 300000000\<rparr>]"
  by code_simp

lemma fx_levels_desc:
  "newOrderBookLevels fx [''3.0'', ''1.0'', ''2.0'']
     [''1.0'' \<mapsto> \<lparr>Price = 100000000, Volume = 100000000\<rparr>,
      ''2.0'' \<mapsto> \<lparr>Price = 200000000, Volume = 200000000\<rparr>,
      ''3.0'' \<mapsto> \<lparr>Price = 300000000, Volume = 300000000\<rparr>] False
   = [\<lparr>Price = 300000000, Volume = 300000000\<rparr>,
      \<lparr>Price = 200000000, Volume = 200000000\<rparr>,
      \<lparr>Price = 100000000, Volume = 100000000\<rparr>]"
  by code_simp

lemma fx_loop_3:
  "applyUpdates_loop fx (newOrderBookSide d 1 vp a)
     [\<lparr>upd_Price = ''1.0'', upd_Volume = ''5''\<rparr>,
      \<lparr>upd_Price = ''2.0'', upd_Volume = ''5''\<rparr>,
      \<lparr>upd_Price = ''3.0'', upd_Volume = ''5''\<rparr>]
   = Return None ((newOrderBookSide d 1 vp a)
       \<lparr>o_m := [''1.0'' \<mapsto> \<lparr>Price = 100000000, Volume = 100000000\<rparr>,
                 ''2.0'' \<mapsto> \<lparr>Price = 200000000, Volume = 200000000\<rparr>,
                 ''3.0'' \<mapsto> \<lparr>Price = 300000000, Volume = 300000000\<rparr>]\<rparr>)"
proof -
  let ?s0 = "newOrderBookSide d 1 vp a :: int OrderBookSide"
  let ?s1 = "?s0\<lparr>o_m := [''1.0'' \<mapsto> \<lparr>Price = 100000000, Volume = 100000000\<rparr>]\<rparr>"
  let ?s2 = "?s0\<lparr>o_m := [''1.0'' \<mapsto> \<lparr>Price = 100000000, Volume = 100000000\<rparr>,
                 ''2.0'' \<mapsto> \<lparr>Price = 200000000, Volume = 200000000\<rparr>]\<rparr>"
  let ?s3 = "?s0\<lparr>o_m := [''1.0'' \<mapsto> \<lparr>Price = 100000000, Volume = 100000000\<rparr>,
                 ''2.0'' \<mapsto> \<lparr>Price = 200000000, Volume = 200000000\<rparr>,
                 ''3.0'' \<mapsto> \<lparr>Price = 300000000, Volume = 300000000\<rparr>]\<rparr>"
  have 1: "applyUpdate fx ?s0 \<lparr>upd_Price = ''1.0'', upd_Volume = ''5''\<rparr> = Return None ?s1"
    using applyUpdate_insert_key [of fx "\<lparr>upd_Price = ''1.0'', upd_Volume = ''5''\<rparr>" ?s0
        100000000 100000000 "''1.0''"]
    by (simp add: fx_5 fx_price_10 fx_key_10)
  have 2: "applyUpdate fx ?s1 \<lparr>upd_Price = ''2.0'', upd_Volume = ''5''\<rparr> = Return None ?s2"
    using applyUpdate_insert_key [of fx "\<lparr>upd_Price = ''2.0'', upd_Volume = ''5''\<rparr>" ?s1
        200000000 200000000 "''2.0''"]
    by (simp add: fx_5 fx_price_20 fx_key_20)
  have 3: "applyUpdate fx ?s2 \<lparr>upd_Price = ''3.0'', upd_Volume = ''5''\<rparr> = Return None ?s3"
    using applyUpdate_insert_key [of fx "\<lparr>upd_Price = ''3.0'', upd_Volume = ''5''\<rparr>" ?s2
        300000000 300000000 "''3.0''"]
    by (simp add: fx_5 fx_price_30 fx_key_30)
  show ?thesis by (simp add: 1 2 3)
qed

lemma fx_batch_3:
  fixes d :: int and a :: bool
  defines "lv \<equiv> newOrderBookLevels fx [''3.0'', ''1.0'', ''2.0'']
     [''1.0'' \<mapsto> \<lparr>Price = 100000000, Volume = 100000000\<rparr>,
      ''2.0'' \<mapsto> \<lparr>Price = 200000000, Volume = 200000000\<rparr>,
      ''3.0'' \<mapsto> \<lparr>Price = 300000000, Volume = 300000000\<rparr>] a"
  assumes "d = 2"
  shows "applyUpdates fx [''3.0'', ''1.0'', ''2.0''] (newOrderBookSide d 1 0 a)
     [\<lparr>upd_Price = ''1.0'', upd_Volume = ''5''\<rparr>,
      \<lparr>upd_Price = ''2.0'', upd_Volume = ''5''\<rparr>,
      \<lparr>upd_Price = ''3.0'', upd_Volume = ''5''\<rparr>]
   = Return None ((newOrderBookSide d 1 0 a)
       \<lparr>o_m := delete_levels fx 1 (drop 2 lv)
                  [''1.0'' \<mapsto> \<lparr>Price = 100000000, Volume = 100000000\<rparr>,
                   ''2.0'' \<mapsto> \<lparr>Price = 200000000, Volume = 200000000\<rparr>,
                   ''3.0'' \<mapsto> \<lparr>Price = 300000000, Volume = 300000000\<rparr>],
        o_sorted := take 2 lv\<rparr>)"
proof -
  have len: "length lv = 3"
    unfolding lv_def by (cases a) (simp_all add: fx_levels_asc fx_levels_desc)
  show ?thesis
    using applyUpdates_Return [OF fx_loop_3 [of d 0 a], of "[''3.0'', ''1.0'', ''2.0'']" lv]
    by (simp add: lv_def [symmetric] len \<open>d = 2\<close>)
qed


subsection \<open>Fewer levels than the depth\<close>

text \<open>Claim C2 says that \<open>applyUpdates\<close> returns normally whenever every update parses,
  also when the map holds fewer levels than \<open>depth\<close>. The source slices
  \<open>levels[o.depth:]\<close> with no check: when all updates are applied and the map then holds
  fewer than \<open>o.depth\<close> levels, the call panics, for every library whose sort permutes
  and for every range order.\<close>

theorem applyUpdates_panics_below_depth:
  assumes loop: "applyUpdates_loop L s updates = Return None s1"
    and free: "\<not> o_mx s1"
    and srt: "sort_ok L"
    and ord: "range_order (o_m s1) ks"
    and few: "int (card (dom (o_m s1))) < o_depth s1"
  shows "applyUpdates L ks s updates = Panic"
  using loop free few length_newOrderBookLevels [OF srt ord, of "o_isAsk s1"]
  by (simp add: applyUpdates_def Let_def)


theorem applyUpdates_panics_below_depth_witness:
  "sort_ok fx \<and>
   (\<exists>s1. applyUpdates_loop fx (newOrderBookSide 2 1 0 True)
            [\<lparr>upd_Price = ''1.0'', upd_Volume = ''5''\<rparr>] = Return None s1 \<and>
      \<not> o_mx s1 \<and> range_order (o_m s1) [''1.0''] \<and>
      int (card (dom (o_m s1))) < o_depth s1) \<and>
   applyUpdates fx [''1.0''] (newOrderBookSide 2 1 0 True)
     [\<lparr>upd_Price = ''1.0'', upd_Volume = ''5''\<rparr>] = Panic"
proof -
  let ?s0 = "newOrderBookSide 2 1 0 True :: int OrderBookSide"
  let ?u = "\<lparr>upd_Price = ''1.0'', upd_Volume = ''5''\<rparr>"
  let ?s1 = "?s0\<lparr>o_m := [''1.0'' \<mapsto> \<lparr>Price = 100000000, Volume = 100000000\<rparr>]\<rparr>"
  have "applyUpdate fx ?s0 ?u = Return None ?s1"
    using applyUpdate_insert_key [of fx ?u ?s0 100000000 100000000 "''1.0''"]
    by (simp add: fx_5 fx_price_10 fx_key_10)
  then have loop: "applyUpdates_loop fx ?s0 [?u] = Return None ?s1" by simp
  have free: "\<not> o_mx ?s1" by simp
  have ord: "range_order (o_m ?s1) [''1.0'']" by (simp add: range_order_def)
  have few: "int (card (dom (o_m ?s1))) < o_depth ?s1" by simp
  have "applyUpdates fx [''1.0''] ?s0 [?u] = Panic"
    by (rule applyUpdates_panics_below_depth [OF loop free sort_ok_fx ord few])
  moreover from loop free ord few
  have "\<exists>s1. applyUpdates_loop fx ?s0 [?u] = Return None s1 \<and>
      \<not> o_mx s1 \<and> range_order (o_m s1) [''1.0''] \<and>
      int (card (dom (o_m s1))) < o_depth s1"
    by (intro exI [of _ ?s1] conjI)
  ultimately show ?thesis using sort_ok_fx by (intro conjI)
qed


subsection \<open>The sorted view after a batch\<close>




lemma dx_7: "Float64_is_0 dx ''7'' = Inr False"
  by code_simp









text \<open>Claim C3: after \<open>applyUpdates\<close> has returned without error, \<open>o.sorted\<close> is at most
  \<open>o.depth\<close> long, every level left in the map is an entry of \<open>o.sorted\<close>, and every
  level that was sorted beyond the depth boundary has had its key deleted from the map.
  The side is one whose levels are stored under the keys of their prices, which holds
  for a new side and is kept by every update.\<close>

theorem applyUpdates_depth_and_eviction:
  assumes ret: "applyUpdates L ks s updates = Return None s'"
    and loop: "applyUpdates_loop L s updates = Return None s1"
    and ord: "range_order (o_m s1) ks"
    and keys: "keys_ok L s" and srt: "sort_ok L"
  shows "int (length (o_sorted s')) \<le> o_depth s' \<and>
         (\<forall>k level. o_m s' k = Some level \<longrightarrow> level \<in> set (o_sorted s')) \<and>
         (\<forall>level\<in>set (newOrderBookLevels L ks (o_m s1) (o_isAsk s1)).
            level \<notin> set (o_sorted s') \<longrightarrow>
            o_m s' (stringFixed L (Price level) (o_pricePrecision s')) = None)"
proof -
  let ?lv = "newOrderBookLevels L ks (o_m s1) (o_isAsk s1)"
  let ?d = "nat (o_depth s1)"
  let ?pp = "o_pricePrecision s1"
  from ret loop have d0: "0 \<le> o_depth s1"
    and s': "s' = s1\<lparr>o_m := delete_levels L ?pp (drop ?d ?lv) (o_m s1), o_sorted := take ?d ?lv\<rparr>"
    by (auto elim!: applyUpdates_Return_None)
  from keys_ok_loop [OF loop keys]
  have k1: "\<And>k level. o_m s1 k = Some level \<Longrightarrow> k = stringFixed L (Price level) ?pp"
    unfolding keys_ok_def by blast
  have set_lv: "set ?lv = {v. \<exists>k\<in>dom (o_m s1). o_m s1 k = Some v}"
    using ord by (simp add: set_newOrderBookLevels [OF srt] set_range_values range_order_def)
  have split: "set ?lv = set (take ?d ?lv) \<union> set (drop ?d ?lv)"
    using set_append [of "take ?d ?lv" "drop ?d ?lv"] by simp
  have "int (length (o_sorted s')) \<le> o_depth s'"
    unfolding s' using d0 by simp
  moreover have "level \<in> set (o_sorted s')" if "o_m s' k = Some level" for k level
  proof -
    from that have notdel: "k \<notin> (\<lambda>l. stringFixed L (Price l) ?pp) ` set (drop ?d ?lv)"
      and m1: "o_m s1 k = Some level"
      unfolding s' by (auto simp: delete_levels_apply split: if_splits)
    from m1 have "level \<in> set ?lv" unfolding set_lv by blast
    moreover have "level \<notin> set (drop ?d ?lv)"
      using notdel k1 [OF m1] by blast
    ultimately show ?thesis unfolding s' using split by simp
  qed
  moreover have "o_m s' (stringFixed L (Price level) (o_pricePrecision s')) = None"
    if "level \<in> set ?lv" and "level \<notin> set (o_sorted s')" for level
  proof -
    from that split have "level \<in> set (drop ?d ?lv)" unfolding s' by simp
    then show ?thesis unfolding s' by (simp add: delete_levels_apply)
  qed
  ultimately show ?thesis by blast
qed

theorem applyUpdates_depth_and_eviction_witness:
  "keys_ok fx (newOrderBookSide 2 1 0 True) \<and> sort_ok fx \<and>
   (\<exists>s1 s'. applyUpdates_loop fx (newOrderBookSide 2 1 0 True)
                [\<lparr>upd_Price = ''1.0'', upd_Volume = ''5''\<rparr>,
                 \<lparr>upd_Price = ''2.0'', upd_Volume = ''5''\<rparr>,
                 \<lparr>upd_Price = ''3.0'', upd_Volume = ''5''\<rparr>] = Return None s1 \<and>
      range_order (o_m s1) [''3.0'', ''1.0'', ''2.0''] \<and>
      applyUpdates fx [''3.0'', ''1.0'', ''2.0''] (newOrderBookSide 2 1 0 True)
                [\<lparr>upd_Price = ''1.0'', upd_Volume = ''5''\<rparr>,
                 \<lparr>upd_Price = ''2.0'', upd_Volume = ''5''\<rparr>,
                 \<lparr>upd_Price = ''3.0'', upd_Volume = ''5''\<rparr>] = Return None s' \<and>
      o_sorted s' = [\<lparr>Price = 100000000, Volume = 100000000\<rparr>,
                     \<lparr>Price = 200000000, Volume = 200000000\<rparr>] \<and>
      int (length (o_sorted s')) \<le> o_depth s' \<and>
      o_m s' ''3.0'' = None \<and>
      Get fx s' 300000000 = Some (0, False))"
proof -
  let ?s0 = "newOrderBookSide 2 1 0 True :: int OrderBookSide"
  let ?us = "[\<lparr>upd_Price = ''1.0'', upd_Volume = ''5''\<rparr>,
              \<lparr>upd_Price = ''2.0'', upd_Volume = ''5''\<rparr>,
              \<lparr>upd_Price = ''3.0'', upd_Volume = ''5''\<rparr>]"
  let ?ks = "[''3.0'', ''1.0'', ''2.0'']"
  let ?L1 = "\<lparr>Price = 100000000 :: int, Volume = 100000000\<rparr>"
  let ?L2 = "\<lparr>Price = 200000000 :: int, Volume = 200000000\<rparr>"
  let ?L3 = "\<lparr>Price = 300000000 :: int, Volume = 300000000\<rparr>"
  let ?m = "[''1.0'' \<mapsto> ?L1, ''2.0'' \<mapsto> ?L2, ''3.0'' \<mapsto> ?L3]"
  let ?s1 = "?s0\<lparr>o_m := ?m\<rparr>"
  let ?s' = "?s0\<lparr>o_m := delete_levels fx 1 (drop 2 (newOrderBookLevels fx ?ks ?m True)) ?m,
                  o_sorted := take 2 (newOrderBookLevels fx ?ks ?m True)\<rparr>"
  have loop: "applyUpdates_loop fx ?s0 ?us = Return None ?s1" by (rule fx_loop_3)
  have ord: "range_order (o_m ?s1) ?ks" by (auto simp: range_order_def)
  have ret: "applyUpdates fx ?ks ?s0 ?us = Return None ?s'" by (rule fx_batch_3) simp
  have keys: "keys_ok fx ?s0" by (rule keys_ok_newOrderBookSide)
  note th = applyUpdates_depth_and_eviction [OF ret loop ord keys sort_ok_fx]
  have srt: "o_sorted ?s' = [?L1, ?L2]" by (simp add: fx_levels_asc)
  from th have len: "int (length (o_sorted ?s')) \<le> o_depth ?s'" by (rule conjunct1)
  have "?L3 \<in> set (newOrderBookLevels fx ?ks (o_m ?s1) (o_isAsk ?s1))"
    by (simp add: fx_levels_asc)
  moreover have "?L3 \<notin> set (o_sorted ?s')" unfolding srt by simp
  ultimately have "o_m ?s' (stringFixed fx (Price ?L3) (o_pricePrecision ?s')) = None"
    using th by blast
  then have gone: "o_m ?s' ''3.0'' = None" by (simp add: fx_key_30)
  have new0: "New fx 0 0 = 0" by code_simp
  from gone have get: "Get fx ?s' 300000000 = Some (0, False)"
    by (simp add: Get_def fx_key_30 new0)
  from loop ord ret srt len gone get
  have "\<exists>s1 s'. applyUpdates_loop fx ?s0 ?us = Return None s1 \<and>
      range_order (o_m s1) ?ks \<and>
      applyUpdates fx ?ks ?s0 ?us = Return None s' \<and>
      o_sorted s' = [?L1, ?L2] \<and>
      int (length (o_sorted s')) \<le> o_depth s' \<and>
      o_m s' ''3.0'' = None \<and>
      Get fx s' 300000000 = Some (0, False)"
    by (intro exI [of _ ?s1] exI [of _ ?s'] conjI)
  with keys sort_ok_fx show ?thesis by (intro conjI)
qed


lemma Replace_1_remove1: "Replace_1 s c = remove1 c s"
  by (induction s) auto

lemma TrimLeft_0: "TrimLeft s ''0'' = dropWhile (\<lambda>c. c = CHR ''0'') s"
  by (simp add: TrimLeft_def)

lemma checksum_loop_concat:
  "checksum_loop L pp vp lv =
     concat (map (\<lambda>level.
        dropWhile (\<lambda>c. c = CHR ''0'') (remove1 CHR ''.'' (stringFixed L (Price level) pp)) @
        dropWhile (\<lambda>c. c = CHR ''0'') (remove1 CHR ''.'' (stringFixed L (Volume level) vp))) lv)"
  by (induction lv) (simp_all add: Let_def Replace_1_remove1 TrimLeft_0)


subsection \<open>The checksum text\<close>

text \<open>Claim C4 says that \<open>checksum\<close> prints each price with \<open>pricePrecision\<close> fractional
  digits, removes the decimal point, strips the leading zeros and appends the result,
  then the same for the volume with \<open>volumePrecision\<close>, with no separators, and that a
  price 0.00500 at precision 5 contributes "5". The general part holds: the text is the
  concatenation, level by level, of the two printed numbers with their first point removed
  and their leading zeros dropped. Only leading zeros are dropped, so the text "0.00500"
  contributes "500".\<close>

theorem checksum_point_and_leading_zeros:
  assumes "\<not> o_mx s"
  shows "checksum L s =
           Some (concat (map (\<lambda>level.
              dropWhile (\<lambda>c. c = CHR ''0'')
                (remove1 CHR ''.'' (stringFixed L (Price level) (o_pricePrecision s))) @
              dropWhile (\<lambda>c. c = CHR ''0'')
                (remove1 CHR ''.'' (stringFixed L (Volume level) (o_volumePrecision s))))
              (o_sorted s))) \<and>
         (o_sorted s = level # rest \<longrightarrow>
          stringFixed L (Price level) (o_pricePrecision s) = ''0.00500'' \<longrightarrow>
          checksum L s =
            Some (''500'' @
                  dropWhile (\<lambda>c. c = CHR ''0'')
                    (remove1 CHR ''.'' (stringFixed L (Volume level) (o_volumePrecision s))) @
                  checksum_loop L (o_pricePrecision s) (o_volumePrecision s) rest))"
  using assms by (simp add: checksum_def checksum_loop_concat)

lemma fx_fixed_00500: "stringFixed fx 500000 5 = ''0.00500''"
  by code_simp

lemma fx_fixed_1: "stringFixed fx 100000000 0 = ''1''"
  by code_simp

theorem checksum_point_and_leading_zeros_witness:
  "\<not> o_mx ((newOrderBookSide 1 5 0 True)\<lparr>o_sorted := [\<lparr>Price = 500000 :: int, Volume = 100000000\<rparr>]\<rparr>) \<and>
   stringFixed fx 500000 5 = ''0.00500'' \<and>
   stringFixed fx 100000000 0 = ''1'' \<and>
   checksum fx ((newOrderBookSide 1 5 0 True)
                  \<lparr>o_sorted := [\<lparr>Price = 500000, Volume = 100000000\<rparr>]\<rparr>) = Some ''5001''"
proof -
  let ?l = "\<lparr>Price = 500000 :: int, Volume = 100000000\<rparr>"
  let ?s = "(newOrderBookSide 1 5 0 True)\<lparr>o_sorted := [?l]\<rparr>"
  have free: "\<not> o_mx ?s" by simp
  from checksum_point_and_leading_zeros [OF free, of fx ?l "[]"]
  have "checksum fx ?s =
            Some (''500'' @
                  dropWhile (\<lambda>c. c = CHR ''0'')
                    (remove1 CHR ''.'' (stringFixed fx (Volume ?l) (o_volumePrecision ?s))) @
                  checksum_loop fx (o_pricePrecision ?s) (o_volumePrecision ?s) [])"
    by (simp add: fx_fixed_00500)
  then have "checksum fx ?s = Some ''5001''"
    by (simp add: fx_fixed_1)
  with free fx_fixed_00500 fx_fixed_1 show ?thesis by (intro conjI)
qed

text \<open>The price 0.00500 at precision 5, with volume 1 at precision 0: the buffer is "500"
  followed by "1", not "5" followed by "1".\<close>

theorem checksum_0_00500_is_500:
  "UnmarshalText fx ZeroBig ''0.00500'' = Inr 500000 \<and>
   stringFixed fx 500000 5 = ''0.00500'' \<and>
   checksum fx ((newOrderBookSide 1 5 0 True)
                  \<lparr>o_sorted := [\<lparr>Price = 500000, Volume = 100000000\<rparr>]\<rparr>) = Some (''500'' @ ''1'') \<and>
   checksum fx ((newOrderBookSide 1 5 0 True)
                  \<lparr>o_sorted := [\<lparr>Price = 500000, Volume = 100000000\<rparr>]\<rparr>) \<noteq> Some (''5'' @ ''1'')"
proof -
  have p: "UnmarshalText fx ZeroBig ''0.00500'' = Inr 500000" by code_simp
  have c: "checksum fx ((newOrderBookSide 1 5 0 True)
                  \<lparr>o_sorted := [\<lparr>Price = 500000, Volume = 100000000\<rparr>]\<rparr>) = Some (''500'' @ ''1'')"
    by (simp add: checksum_def Let_def fx_fixed_00500 fx_fixed_1 TrimLeft_def)
  then have "checksum fx ((newOrderBookSide 1 5 0 True)
                  \<lparr>o_sorted := [\<lparr>Price = 500000, Volume = 100000000\<rparr>]\<rparr>) \<noteq> Some (''5'' @ ''1'')"
    by simp
  with p fx_fixed_00500 c show ?thesis by (intro conjI)
qed

subsection \<open>Updates that leave a key alone; the map after the eviction\<close>


lemma applyUpdate_None_cases:
  assumes "applyUpdate L s u = Return None s'"
  shows "\<exists>is0 price.
           Float64_is_0 L (upd_Volume u) = Inr is0 \<and>
           UnmarshalText L (WithPrecision (o_pricePrecision s)) (upd_Price u) = Inr price \<and>
           \<not> o_mx s \<and>
           (if is0 then s' = s\<lparr>o_m := (o_m s)(stringFixed L price (o_pricePrecision s) := None)\<rparr>
            else \<exists>v. UnmarshalText L ZeroBig (upd_Price u) = Inr v \<and>
                   s' = s\<lparr>o_m := (o_m s)(stringFixed L price (o_pricePrecision s) \<mapsto>
                                            \<lparr>Price = price, Volume = v\<rparr>)\<rparr>)"
  using assms
  by (auto simp: applyUpdate_def Let_def split: sum.splits if_splits)



text \<open>The sorted levels of a map whose levels are stored under their own keys.\<close>

lemma levels_of_map:
  assumes keys: "keys_ok L s1" and srt: "sort_ok L" and ord: "range_order (o_m s1) ks"
  defines "lv \<equiv> newOrderBookLevels L ks (o_m s1) (o_isAsk s1)"
  shows "distinct lv"
    and "\<And>level. level \<in> set lv \<longleftrightarrow> (\<exists>k. o_m s1 k = Some level)"
    and "\<And>level. level \<in> set lv \<Longrightarrow>
           o_m s1 (stringFixed L (Price level) (o_pricePrecision s1)) = Some level"
proof -
  from keys have k1: "\<And>k level. o_m s1 k = Some level \<Longrightarrow>
      k = stringFixed L (Price level) (o_pricePrecision s1)"
    unfolding keys_ok_def by blast
  from ord have dks: "distinct ks" and sks: "set ks = dom (o_m s1)"
    unfolding range_order_def by simp_all
  have "distinct (range_values (o_m s1) ks)"
    using dks
  proof (rule distinct_range_values)
    fix k k' v assume "o_m s1 k = Some v" "o_m s1 k' = Some v"
    then show "k = k'" using k1 by metis
  qed
  then show "distinct lv"
    unfolding lv_def by (simp add: distinct_newOrderBookLevels [OF srt])
  show mem: "level \<in> set lv \<longleftrightarrow> (\<exists>k. o_m s1 k = Some level)" for level
    unfolding lv_def using sks
    by (auto simp: set_newOrderBookLevels [OF srt] set_range_values)
  show "o_m s1 (stringFixed L (Price level) (o_pricePrecision s1)) = Some level"
    if "level \<in> set lv" for level
    using that mem k1 by metis
qed

lemma evict_lookup:
  assumes keys: "keys_ok L s1" and srt: "sort_ok L" and ord: "range_order (o_m s1) ks"
  shows "delete_levels L (o_pricePrecision s1)
           (drop d (newOrderBookLevels L ks (o_m s1) (o_isAsk s1))) (o_m s1) k =
         (case o_m s1 k of
            None \<Rightarrow> None
          | Some level \<Rightarrow>
              if level \<in> set (take d (newOrderBookLevels L ks (o_m s1) (o_isAsk s1)))
              then Some level else None)"
proof -
  let ?lv = "newOrderBookLevels L ks (o_m s1) (o_isAsk s1)"
  let ?key = "\<lambda>level. stringFixed L (Price level) (o_pricePrecision s1)"
  note lv = levels_of_map [OF keys srt ord]
  from keys have k1: "\<And>k level. o_m s1 k = Some level \<Longrightarrow> k = ?key level"
    unfolding keys_ok_def by blast
  from lv(1) have "distinct (take d ?lv @ drop d ?lv)" by simp
  then have disj: "set (take d ?lv) \<inter> set (drop d ?lv) = {}"
    unfolding distinct_append by blast
  have split: "set ?lv = set (take d ?lv) \<union> set (drop d ?lv)"
    using set_append [of "take d ?lv" "drop d ?lv"] by simp
  show ?thesis
  proof (cases "o_m s1 k")
    case None
    then show ?thesis by (simp add: delete_levels_apply)
  next
    case (Some level)
    then have in_lv: "level \<in> set ?lv" using lv(2) by blast
    show ?thesis
    proof (cases "level \<in> set (take d ?lv)")
      case True
      have "k \<notin> ?key ` set (drop d ?lv)"
      proof
        assume "k \<in> ?key ` set (drop d ?lv)"
        then obtain l where l: "l \<in> set (drop d ?lv)" and kl: "k = ?key l" by blast
        from l split have "l \<in> set ?lv" by blast
        from lv(3) [OF this] kl Some have "l = level" by simp
        with l True disj show False by blast
      qed
      with Some True show ?thesis by (simp add: delete_levels_apply)
    next
      case False
      with in_lv split have "level \<in> set (drop d ?lv)" by blast
      then have "k \<in> ?key ` set (drop d ?lv)" using k1 [OF Some] by blast
      with Some False show ?thesis by (simp add: delete_levels_apply)
    qed
  qed
qed

subsection \<open>The same price twice in one batch\<close>








subsection \<open>Two runs of the loop over the same updates; sorted lists\<close>

lemma applyUpdates_loop_only_map:
  "applyUpdates_loop L s updates = Return None t \<Longrightarrow> t = s\<lparr>o_m := o_m t\<rparr>"
proof (induction updates arbitrary: s)
  case Nil
  then show ?case by simp
next
  case (Cons u updates)
  from Cons.prems obtain s1 where
    1: "applyUpdate L s u = Return None s1" and 2: "applyUpdates_loop L s1 updates = Return None t"
    by (auto split: outcome.splits option.splits)
  from applyUpdate_None_cases [OF 1]
  obtain mp where s1: "s1 = s\<lparr>o_m := mp\<rparr>"
    by (auto split: if_splits)
  from Cons.IH [OF 2] have "t = s1\<lparr>o_m := o_m t\<rparr>" .
  then show ?case unfolding s1 by simp
qed

lemma applyUpdate_two_runs:
  assumes run: "applyUpdate L s u = Return None sa"
    and pp: "o_pricePrecision s' = o_pricePrecision s" and free: "\<not> o_mx s'"
  shows "\<exists>key r. sa = s\<lparr>o_m := (o_m s)(key := r)\<rparr> \<and>
           applyUpdate L s' u = Return None (s'\<lparr>o_m := (o_m s')(key := r)\<rparr>)"
proof -
  from applyUpdate_None_cases [OF run] obtain is0 price where
    v: "Float64_is_0 L (upd_Volume u) = Inr is0"
    and p: "UnmarshalText L (WithPrecision (o_pricePrecision s)) (upd_Price u) = Inr price"
    and eff: "if is0 then sa = s\<lparr>o_m := (o_m s)(stringFixed L price (o_pricePrecision s) := None)\<rparr>
            else \<exists>v. UnmarshalText L ZeroBig (upd_Price u) = Inr v \<and>
                   sa = s\<lparr>o_m := (o_m s)(stringFixed L price (o_pricePrecision s) \<mapsto>
                                            \<lparr>Price = price, Volume = v\<rparr>)\<rparr>"
    by blast
  let ?key = "stringFixed L price (o_pricePrecision s)"
  show ?thesis
  proof (cases is0)
    case True
    with eff have "sa = s\<lparr>o_m := (o_m s)(?key := None)\<rparr>" by simp
    moreover from True v p pp free
    have "applyUpdate L s' u = Return None (s'\<lparr>o_m := (o_m s')(?key := None)\<rparr>)"
      using applyUpdate_delete [of L u s' price] by simp
    ultimately show ?thesis by blast
  next
    case False
    with eff obtain x where x: "UnmarshalText L ZeroBig (upd_Price u) = Inr x"
      and "sa = s\<lparr>o_m := (o_m s)(?key \<mapsto> \<lparr>Price = price, Volume = x\<rparr>)\<rparr>"
      by auto
    moreover from False v p pp free x
    have "applyUpdate L s' u =
            Return None (s'\<lparr>o_m := (o_m s')(?key \<mapsto> \<lparr>Price = price, Volume = x\<rparr>)\<rparr>)"
      using applyUpdate_insert [of L u s' price x] by simp
    ultimately show ?thesis by blast
  qed
qed

lemma applyUpdates_loop_two_runs:
  "applyUpdates_loop L s updates = Return None t \<Longrightarrow>
   o_pricePrecision s' = o_pricePrecision s \<Longrightarrow> \<not> o_mx s' \<Longrightarrow>
   \<exists>t'. applyUpdates_loop L s' updates = Return None t' \<and>
        (\<forall>k. o_m t' k = o_m t k \<or> o_m t k = o_m s k \<and> o_m t' k = o_m s' k)"
proof (induction updates arbitrary: s s')
  case Nil
  then show ?case by simp
next
  case (Cons u updates)
  from Cons.prems(1) obtain sa where
    1: "applyUpdate L s u = Return None sa" and 2: "applyUpdates_loop L sa updates = Return None t"
    by (auto split: outcome.splits option.splits)
  from applyUpdate_two_runs [OF 1 Cons.prems(2,3)] obtain key r where
    sa: "sa = s\<lparr>o_m := (o_m s)(key := r)\<rparr>"
    and run': "applyUpdate L s' u = Return None (s'\<lparr>o_m := (o_m s')(key := r)\<rparr>)"
    by blast
  let ?sa' = "s'\<lparr>o_m := (o_m s')(key := r)\<rparr>"
  have "o_pricePrecision ?sa' = o_pricePrecision sa" "\<not> o_mx ?sa'"
    using Cons.prems(2,3) unfolding sa by simp_all
  from Cons.IH [OF 2 this] obtain t' where
    l': "applyUpdates_loop L ?sa' updates = Return None t'"
    and rel: "\<forall>k. o_m t' k = o_m t k \<or> o_m t k = o_m sa k \<and> o_m t' k = o_m ?sa' k"
    by blast
  have "o_m t' k = o_m t k \<or> o_m t k = o_m s k \<and> o_m t' k = o_m s' k" for k
    using rel [rule_format, of k] unfolding sa by (cases "k = key") auto
  moreover from run' l' have "applyUpdates_loop L s' (u # updates) = Return None t'" by simp
  ultimately show ?case by blast
qed

lemma sorted_wrt_unique:
  assumes "sorted_wrt (\<lambda>a b. \<not> lt b a) xs" and "sorted_wrt (\<lambda>a b. \<not> lt b a) ys"
    and "mset xs = mset ys"
    and "\<forall>a\<in>set xs. \<forall>b\<in>set xs. a \<noteq> b \<longrightarrow> lt a b \<or> lt b a"
  shows "xs = ys"
  using assms
proof (induction xs arbitrary: ys)
  case Nil
  then show ?case by simp
next
  case (Cons x xs)
  from Cons.prems(3) have "ys \<noteq> []" by auto
  then obtain y ys' where ys: "ys = y # ys'" by (cases ys) auto
  from Cons.prems(3) have sets: "set (x # xs) = set ys" by (rule mset_eq_setD)
  have "x = y"
  proof (rule ccontr)
    assume ne: "x \<noteq> y"
    with sets ys have "x \<in> set ys'" "y \<in> set xs" by auto
    with Cons.prems(1,2) ys have "\<not> lt x y" "\<not> lt y x" by auto
    moreover from Cons.prems(4) ne \<open>y \<in> set xs\<close> have "lt x y \<or> lt y x" by auto
    ultimately show False by blast
  qed
  with Cons.prems ys have "xs = ys'"
    by (intro Cons.IH) auto
  with \<open>x = y\<close> ys show ?case by simp
qed

subsection \<open>Applying a batch twice\<close>

text \<open>Claim C9: when a batch has been applied by \<open>applyUpdates\<close>, applying the same batch
  again returns without error and leaves the side as it was: the same \<open>o.sorted\<close>, the
  same \<open>checksum\<close>, the same map. This holds for every range order of the two calls, also
  for batches with volumes of zero, when \<open>Cmp\<close> is a comparison on the prices that the
  map holds after the updates of the batch and no two of its levels have prices that
  compare equal, for a library that sorts as \<open>sort.Sort\<close> does.\<close>

theorem applyUpdates_twice:
  assumes first: "applyUpdates L ks1 s updates = Return None s1"
    and loop1: "applyUpdates_loop L s updates = Return None t1"
    and ord1: "range_order (o_m t1) ks1"
    and ord2: "\<forall>t2. applyUpdates_loop L s1 updates = Return None t2 \<longrightarrow> range_order (o_m t2) ks2"
    and keys: "keys_ok L s" and srt: "sort_ok L" and sorts: "sort_sorts L"
    and cmp: "cmp_on L (Price ` ran (o_m t1))" and ties: "no_ties L (o_m t1)"
  shows "\<exists>s2. applyUpdates L ks2 s1 updates = Return None s2 \<and>
           o_sorted s2 = o_sorted s1 \<and> checksum L s2 = checksum L s1 \<and> s2 = s1"
proof -
  let ?asc = "o_isAsk t1"
  let ?pp = "o_pricePrecision t1"
  let ?d = "nat (o_depth t1)"
  let ?lt = "if ?asc then byPrice_Less L else Reverse (byPrice_Less L)"
  let ?key = "\<lambda>level. stringFixed L (Price level) ?pp"
  let ?lv1 = "newOrderBookLevels L ks1 (o_m t1) ?asc"
  let ?M1 = "delete_levels L ?pp (drop ?d ?lv1) (o_m t1)"
  from first loop1 have free1: "\<not> o_mx t1" and d0: "0 \<le> o_depth t1"
    and dle: "o_depth t1 \<le> int (length ?lv1)"
    and s1: "s1 = t1\<lparr>o_m := ?M1, o_sorted := take ?d ?lv1\<rparr>"
    by (auto elim!: applyUpdates_Return_None)
  from applyUpdates_loop_fields [OF loop1] have pp1: "?pp = o_pricePrecision s" by simp
  have keys1: "keys_ok L t1" by (rule keys_ok_loop [OF loop1 keys])
  note lvA = levels_of_map [OF keys1 srt ord1]
  have M1: "?M1 k = (case o_m t1 k of None \<Rightarrow> None
      | Some l \<Rightarrow> if l \<in> set (take ?d ?lv1) then Some l else None)" for k
    by (rule evict_lookup [OF keys1 srt ord1])
  have m_s1: "o_m s1 = ?M1" and pp_s1: "o_pricePrecision s1 = o_pricePrecision s"
    and free_s1: "\<not> o_mx s1"
    unfolding s1 using pp1 free1 by simp_all
  from applyUpdates_loop_two_runs [OF loop1 pp_s1 free_s1] obtain t2 where
    loop2: "applyUpdates_loop L s1 updates = Return None t2"
    and rel: "\<And>k. o_m t2 k = o_m t1 k \<or> o_m t1 k = o_m s k \<and> o_m t2 k = o_m s1 k"
    by blast
  have sub1: "o_m t2 k = Some l" if "?M1 k = Some l" for k l
  proof -
    from that have "o_m t1 k = Some l" unfolding M1 by (auto split: option.splits if_splits)
    with rel [of k] that m_s1 show ?thesis by auto
  qed
  have sub2: "o_m t1 k = Some l" if "o_m t2 k = Some l" for k l
  proof -
    from rel [of k] show ?thesis
    proof
      assume "o_m t2 k = o_m t1 k"
      with that show ?thesis by simp
    next
      assume "o_m t1 k = o_m s k \<and> o_m t2 k = o_m s1 k"
      with that m_s1 have "?M1 k = Some l" by simp
      then show ?thesis unfolding M1 by (auto split: option.splits if_splits)
    qed
  qed
  from applyUpdates_loop_only_map [OF loop2] have t2: "t2 = s1\<lparr>o_m := o_m t2\<rparr>" .
  have f2: "o_isAsk t2 = ?asc" "o_depth t2 = o_depth t1" "o_pricePrecision t2 = ?pp" "\<not> o_mx t2"
    using t2 s1 free1
    by (metis OrderBookSide.select_convs OrderBookSide.surjective OrderBookSide.update_convs)+
  have keys2: "keys_ok L t2"
    unfolding keys_ok_def
  proof (intro allI impI)
    fix k level assume "o_m t2 k = Some level"
    then have "o_m t1 k = Some level" by (rule sub2)
    with keys1 show "k = stringFixed L (Price level) (o_pricePrecision t2)"
      unfolding keys_ok_def f2 by blast
  qed
  from ord2 loop2 have ord2': "range_order (o_m t2) ks2" by blast
  let ?lv2 = "newOrderBookLevels L ks2 (o_m t2) ?asc"
  note lvB = levels_of_map [OF keys2 srt ord2', unfolded f2]
  have subset: "set ?lv2 \<subseteq> set ?lv1"
    using lvA(2) lvB(2) sub2 by blast
  have take_in: "set (take ?d ?lv1) \<subseteq> set ?lv2"
  proof
    fix l assume l: "l \<in> set (take ?d ?lv1)"
    then have "l \<in> set ?lv1" by (rule in_set_takeD)
    from lvA(3) [OF this] l have "?M1 (?key l) = Some l" unfolding M1 by simp
    then have "o_m t2 (?key l) = Some l" by (rule sub1)
    then show "l \<in> set ?lv2" using lvB(2) by blast
  qed
  have "ran (o_m t2) \<subseteq> ran (o_m t1)"
    using sub2 by (auto simp: ran_def)
  then have cmp2: "cmp_on L (Price ` ran (o_m t2))"
    by (intro cmp_on_subset [OF cmp]) blast
  have sorted1: "sorted_wrt (\<lambda>a b. \<not> ?lt b a) ?lv1"
    by (rule sorted_levels_on(1) [OF srt sorts cmp])
  have sorted2: "sorted_wrt (\<lambda>a b. \<not> ?lt b a) ?lv2"
    by (rule sorted_levels_on(1) [OF srt sorts cmp2])
  let ?P = "\<lambda>l. l \<in> set ?lv2"
  have uniq: "?lv2 = filter ?P ?lv1"
  proof (rule sorted_wrt_unique [where lt = ?lt])
    show "sorted_wrt (\<lambda>a b. \<not> ?lt b a) ?lv2" by (rule sorted2)
    show "sorted_wrt (\<lambda>a b. \<not> ?lt b a) (filter ?P ?lv1)"
      using sorted1 by (rule sorted_wrt_filter)
    have e: "set ?lv2 = set (filter ?P ?lv1)" using subset by auto
    have dd: "distinct (filter ?P ?lv1)" using lvA(1) by simp
    show "mset ?lv2 = mset (filter ?P ?lv1)"
      using set_eq_iff_mset_eq_distinct [OF lvB(1) dd] e by blast
    show "\<forall>a\<in>set ?lv2. \<forall>b\<in>set ?lv2. a \<noteq> b \<longrightarrow> ?lt a b \<or> ?lt b a"
    proof (intro ballI impI)
      fix a b assume a: "a \<in> set ?lv2" and b: "b \<in> set ?lv2" and ne: "a \<noteq> b"
      from a b subset have "a \<in> set ?lv1" "b \<in> set ?lv1" by blast+
      then have ma: "o_m t1 (?key a) = Some a" and mb: "o_m t1 (?key b) = Some b"
        by (simp_all add: lvA(3))
      with ne have "?key a \<noteq> ?key b" by auto
      with ties ma mb have "Cmp L (Price a) (Price b) \<noteq> 0"
        unfolding no_ties_def by blast
      moreover from ma mb have "Price a \<in> Price ` ran (o_m t1)" "Price b \<in> Price ` ran (o_m t1)"
        by (auto simp: ran_def)
      ultimately show "?lt a b \<or> ?lt b a"
        using side_total_on [OF cmp] by blast
    qed
  qed
  have "filter ?P (take ?d ?lv1) = take ?d ?lv1"
    using take_in by (simp add: filter_id_conv subset_iff)
  then have "filter ?P ?lv1 = take ?d ?lv1 @ filter ?P (drop ?d ?lv1)"
    using filter_append [of ?P "take ?d ?lv1" "drop ?d ?lv1"] by simp
  with uniq have lv2: "?lv2 = take ?d ?lv1 @ filter ?P (drop ?d ?lv1)" by simp
  from dle d0 have len: "length (take ?d ?lv1) = ?d" by simp
  have take2: "take ?d ?lv2 = take ?d ?lv1"
    using arg_cong [OF lv2, of "take ?d"] len by simp
  have "?d \<le> length ?lv2"
    using arg_cong [OF lv2, of length] len by simp
  with d0 have dle2: "o_depth t2 \<le> int (length (newOrderBookLevels L ks2 (o_m t2) (o_isAsk t2)))"
    unfolding f2 by simp
  let ?M2 = "delete_levels L ?pp (drop ?d ?lv2) (o_m t2)"
  have M2: "?M2 k = (case o_m t2 k of None \<Rightarrow> None
      | Some l \<Rightarrow> if l \<in> set (take ?d ?lv2) then Some l else None)" for k
    using evict_lookup [OF keys2 srt ord2', of ?d k] unfolding f2 .
  have "?M2 k = ?M1 k" for k
  proof (cases "?M1 k")
    case None
    show ?thesis
    proof (cases "o_m t2 k")
      case n: None
      with None show ?thesis unfolding M2 by simp
    next
      case (Some l)
      then have "o_m t1 k = Some l" by (rule sub2)
      with None have "l \<notin> set (take ?d ?lv1)" unfolding M1 by (auto split: if_splits)
      with Some None show ?thesis unfolding M2 take2 by simp
    qed
  next
    case (Some l)
    then have "o_m t2 k = Some l" by (rule sub1)
    moreover from Some have "l \<in> set (take ?d ?lv1)"
      unfolding M1 by (auto split: option.splits if_splits)
    ultimately show ?thesis using Some unfolding M2 take2 by simp
  qed
  then have M_eq: "?M2 = ?M1" by (rule ext)
  from d0 have d02: "0 \<le> o_depth t2" unfolding f2 .
  from applyUpdates_Return [OF loop2 f2(4) refl d02 dle2]
  have "applyUpdates L ks2 s1 updates =
          Return None (t2\<lparr>o_m := ?M2, o_sorted := take ?d ?lv2\<rparr>)"
    unfolding f2 .
  moreover have "c\<lparr>o_m := M, o_sorted := S\<rparr> = a"
    if "a = b\<lparr>o_m := M, o_sorted := S\<rparr>" and "c = a\<lparr>o_m := X\<rparr>"
    for a b c :: "'a OrderBookSide" and M S X
    using that by simp
  from this [OF s1 t2] have "t2\<lparr>o_m := ?M2, o_sorted := take ?d ?lv2\<rparr> = s1"
    unfolding M_eq take2 .
  ultimately show ?thesis by simp
qed

lemma fx_loop_3_from:
  assumes "o_pricePrecision s = 1" and "\<not> o_mx s"
  shows "applyUpdates_loop fx s
     [\<lparr>upd_Price = ''1.0'', upd_Volume = ''5''\<rparr>,
      \<lparr>upd_Price = ''2.0'', upd_Volume = ''5''\<rparr>,
      \<lparr>upd_Price = ''3.0'', upd_Volume = ''5''\<rparr>]
   = Return None (s\<lparr>o_m := (o_m s)
                (''1.0'' \<mapsto> \<lparr>Price = 100000000, Volume = 100000000\<rparr>,
                 ''2.0'' \<mapsto> \<lparr>Price = 200000000, Volume = 200000000\<rparr>,
                 ''3.0'' \<mapsto> \<lparr>Price = 300000000, Volume = 300000000\<rparr>)\<rparr>)"
proof -
  let ?s1 = "s\<lparr>o_m := (o_m s)(''1.0'' \<mapsto> \<lparr>Price = 100000000, Volume = 100000000\<rparr>)\<rparr>"
  let ?s2 = "s\<lparr>o_m := (o_m s)(''1.0'' \<mapsto> \<lparr>Price = 100000000, Volume = 100000000\<rparr>,
                 ''2.0'' \<mapsto> \<lparr>Price = 200000000, Volume = 200000000\<rparr>)\<rparr>"
  let ?s3 = "s\<lparr>o_m := (o_m s)(''1.0'' \<mapsto> \<lparr>Price = 100000000, Volume = 100000000\<rparr>,
                 ''2.0'' \<mapsto> \<lparr>Price = 200000000, Volume = 200000000\<rparr>,
                 ''3.0'' \<mapsto> \<lparr>Price = 300000000, Volume = 300000000\<rparr>)\<rparr>"
  have 1: "applyUpdate fx s \<lparr>upd_Price = ''1.0'', upd_Volume = ''5''\<rparr> = Return None ?s1"
    using applyUpdate_insert_key [of fx "\<lparr>upd_Price = ''1.0'', upd_Volume = ''5''\<rparr>" s
        100000000 100000000 "''1.0''"] assms
    by (simp add: fx_5 fx_price_10 fx_key_10)
  have 2: "applyUpdate fx ?s1 \<lparr>upd_Price = ''2.0'', upd_Volume = ''5''\<rparr> = Return None ?s2"
    using applyUpdate_insert_key [of fx "\<lparr>upd_Price = ''2.0'', upd_Volume = ''5''\<rparr>" ?s1
        200000000 200000000 "''2.0''"] assms
    by (simp add: fx_5 fx_price_20 fx_key_20)
  have 3: "applyUpdate fx ?s2 \<lparr>upd_Price = ''3.0'', upd_Volume = ''5''\<rparr> = Return None ?s3"
    using applyUpdate_insert_key [of fx "\<lparr>upd_Price = ''3.0'', upd_Volume = ''5''\<rparr>" ?s2
        300000000 300000000 "''3.0''"] assms
    by (simp add: fx_5 fx_price_30 fx_key_30)
  show ?thesis by (simp add: 1 2 3)
qed

lemma fx_checksum_2:
  "checksum_loop fx 1 0 [\<lparr>Price = 100000000, Volume = 100000000\<rparr>,
                         \<lparr>Price = 200000000, Volume = 200000000\<rparr>] = ''101202''"
  by code_simp

theorem applyUpdates_twice_witness:
  "keys_ok fx (newOrderBookSide 2 1 0 True) \<and> sort_ok fx \<and> sort_sorts fx \<and>
   (\<exists>s1 t1.
      applyUpdates fx [''3.0'', ''1.0'', ''2.0''] (newOrderBookSide 2 1 0 True)
         [\<lparr>upd_Price = ''1.0'', upd_Volume = ''5''\<rparr>,
          \<lparr>upd_Price = ''2.0'', upd_Volume = ''5''\<rparr>,
          \<lparr>upd_Price = ''3.0'', upd_Volume = ''5''\<rparr>] = Return None s1 \<and>
      applyUpdates_loop fx (newOrderBookSide 2 1 0 True)
         [\<lparr>upd_Price = ''1.0'', upd_Volume = ''5''\<rparr>,
          \<lparr>upd_Price = ''2.0'', upd_Volume = ''5''\<rparr>,
          \<lparr>upd_Price = ''3.0'', upd_Volume = ''5''\<rparr>] = Return None t1 \<and>
      range_order (o_m t1) [''3.0'', ''1.0'', ''2.0''] \<and>
      cmp_on fx (Price ` ran (o_m t1)) \<and> no_ties fx (o_m t1) \<and>
      (\<exists>t2. applyUpdates_loop fx s1
         [\<lparr>upd_Price = ''1.0'', upd_Volume = ''5''\<rparr>,
          \<lparr>upd_Price = ''2.0'', upd_Volume = ''5''\<rparr>,
          \<lparr>upd_Price = ''3.0'', upd_Volume = ''5''\<rparr>] = Return None t2 \<and>
         range_order (o_m t2) [''1.0'', ''2.0'', ''3.0'']) \<and>
      applyUpdates fx [''1.0'', ''2.0'', ''3.0''] s1
         [\<lparr>upd_Price = ''1.0'', upd_Volume = ''5''\<rparr>,
          \<lparr>upd_Price = ''2.0'', upd_Volume = ''5''\<rparr>,
          \<lparr>upd_Price = ''3.0'', upd_Volume = ''5''\<rparr>] = Return None s1 \<and>
      o_sorted s1 = [\<lparr>Price = 100000000, Volume = 100000000\<rparr>,
                     \<lparr>Price = 200000000, Volume = 200000000\<rparr>] \<and>
      checksum fx s1 = Some ''101202'')"
proof -
  let ?s0 = "newOrderBookSide 2 1 0 True :: int OrderBookSide"
  let ?us = "[\<lparr>upd_Price = ''1.0'', upd_Volume = ''5''\<rparr>,
              \<lparr>upd_Price = ''2.0'', upd_Volume = ''5''\<rparr>,
              \<lparr>upd_Price = ''3.0'', upd_Volume = ''5''\<rparr>]"
  let ?ks1 = "[''3.0'', ''1.0'', ''2.0'']"
  let ?ks2 = "[''1.0'', ''2.0'', ''3.0'']"
  let ?L1 = "\<lparr>Price = 100000000 :: int, Volume = 100000000\<rparr>"
  let ?L2 = "\<lparr>Price = 200000000 :: int, Volume = 200000000\<rparr>"
  let ?L3 = "\<lparr>Price = 300000000 :: int, Volume = 300000000\<rparr>"
  let ?m = "[''1.0'' \<mapsto> ?L1, ''2.0'' \<mapsto> ?L2, ''3.0'' \<mapsto> ?L3]"
  let ?t1 = "?s0\<lparr>o_m := ?m\<rparr>"
  let ?s1 = "?s0\<lparr>o_m := delete_levels fx 1 (drop 2 (newOrderBookLevels fx ?ks1 ?m True)) ?m,
                  o_sorted := take 2 (newOrderBookLevels fx ?ks1 ?m True)\<rparr>"
  let ?t2 = "?s1\<lparr>o_m := (o_m ?s1)(''1.0'' \<mapsto> ?L1, ''2.0'' \<mapsto> ?L2, ''3.0'' \<mapsto> ?L3)\<rparr>"
  have first: "applyUpdates fx ?ks1 ?s0 ?us = Return None ?s1" by (rule fx_batch_3) simp
  have loop1: "applyUpdates_loop fx ?s0 ?us = Return None ?t1" by (rule fx_loop_3)
  have ord1: "range_order (o_m ?t1) ?ks1" by (auto simp: range_order_def)
  have loop2: "applyUpdates_loop fx ?s1 ?us = Return None ?t2"
    by (rule fx_loop_3_from) simp_all
  have r2: "range_order (o_m ?t2) ?ks2"
    by (auto simp: range_order_def fx_levels_asc fx_key_30)
  from loop2 r2
  have ord2: "\<forall>t2. applyUpdates_loop fx ?s1 ?us = Return None t2 \<longrightarrow> range_order (o_m t2) ?ks2"
    by simp
  have keys: "keys_ok fx ?s0" by (rule keys_ok_newOrderBookSide)
  have cmp: "cmp_on fx (Price ` ran (o_m ?t1))" by (rule cmp_on_fx)
  have ties: "no_ties fx (o_m ?t1)"
    by (auto simp: no_ties_def fx_def fx_Cmp_def split: if_splits)
  from applyUpdates_twice [OF first loop1 ord1 ord2 keys sort_ok_fx sort_sorts_fx cmp ties]
  have again: "applyUpdates fx ?ks2 ?s1 ?us = Return None ?s1" by blast
  have srt: "o_sorted ?s1 = [?L1, ?L2]" by (simp add: fx_levels_asc)
  have chk: "checksum fx ?s1 = Some ''101202''"
    by (simp add: checksum_def fx_levels_asc fx_checksum_2 del: checksum_loop.simps)
  from loop2 r2 have ex2: "\<exists>t2. applyUpdates_loop fx ?s1 ?us = Return None t2 \<and>
         range_order (o_m t2) ?ks2" by (intro exI [of _ ?t2] conjI)
  have "\<exists>s1 t1. applyUpdates fx ?ks1 ?s0 ?us = Return None s1 \<and>
      applyUpdates_loop fx ?s0 ?us = Return None t1 \<and>
      range_order (o_m t1) ?ks1 \<and>
      cmp_on fx (Price ` ran (o_m t1)) \<and> no_ties fx (o_m t1) \<and>
      (\<exists>t2. applyUpdates_loop fx s1 ?us = Return None t2 \<and> range_order (o_m t2) ?ks2) \<and>
      applyUpdates fx ?ks2 s1 ?us = Return None s1 \<and>
      o_sorted s1 = [?L1, ?L2] \<and> checksum fx s1 = Some ''101202''"
    by (rule exI [of _ ?s1], rule exI [of _ ?t1], intro conjI)
       (rule first loop1 ord1 cmp ties ex2 again srt chk)+
  with keys sort_ok_fx sort_sorts_fx show ?thesis by (intro conjI)
qed

text \<open>Two prices that compare equal and are printed differently are two levels of the map,
  and the order in which \<open>sort.Sort\<close> leaves them is the order in which the map was
  ranged over. With depth 1 the batch 1e2, 100 leaves the level of 100 (checksum
  "1000100") when the range visits it first, and applied again, the range visiting the
  level of 1e2 first, it leaves that one (checksum "100100").\<close>

lemma dx_price_1e2: "UnmarshalText dx r ''1e2'' = Inr (Dec 10000000000 True)"
  by (cases r; code_simp)

lemma dx_price_100: "UnmarshalText dx r ''100'' = Inr (Dec 10000000000 False)"
  by (cases r; code_simp)

lemma dx_key_1e2: "stringFixed dx (Dec 10000000000 True) 1 = ''100''"
  by code_simp

lemma dx_key_100: "stringFixed dx (Dec 10000000000 False) 1 = ''100.0''"
  by code_simp

lemma dx_loop_equal_prices:
  assumes "o_pricePrecision s = 1" and "\<not> o_mx s"
  shows "applyUpdates_loop dx s
     [\<lparr>upd_Price = ''1e2'', upd_Volume = ''7''\<rparr>,
      \<lparr>upd_Price = ''100'', upd_Volume = ''7''\<rparr>]
   = Return None (s\<lparr>o_m := (o_m s)
       (''100'' \<mapsto> \<lparr>Price = Dec 10000000000 True, Volume = Dec 10000000000 True\<rparr>,
        ''100.0'' \<mapsto> \<lparr>Price = Dec 10000000000 False, Volume = Dec 10000000000 False\<rparr>)\<rparr>)"
proof -
  let ?u1 = "\<lparr>upd_Price = ''1e2'', upd_Volume = ''7''\<rparr>"
  let ?u2 = "\<lparr>upd_Price = ''100'', upd_Volume = ''7''\<rparr>"
  let ?A = "\<lparr>Price = Dec 10000000000 True, Volume = Dec 10000000000 True\<rparr>"
  let ?B = "\<lparr>Price = Dec 10000000000 False, Volume = Dec 10000000000 False\<rparr>"
  let ?s1 = "s\<lparr>o_m := (o_m s)(''100'' \<mapsto> ?A)\<rparr>"
  let ?s2 = "s\<lparr>o_m := (o_m s)(''100'' \<mapsto> ?A, ''100.0'' \<mapsto> ?B)\<rparr>"
  have 1: "applyUpdate dx s ?u1 = Return None ?s1"
    using applyUpdate_insert_key [of dx ?u1 s "Dec 10000000000 True" "Dec 10000000000 True"
        "''100''"] assms
    by (simp add: dx_7 dx_price_1e2 dx_key_1e2)
  have 2: "applyUpdate dx ?s1 ?u2 = Return None ?s2"
    using applyUpdate_insert_key [of dx ?u2 ?s1 "Dec 10000000000 False" "Dec 10000000000 False"
        "''100.0''"] assms
    by (simp add: dx_7 dx_price_100 dx_key_100)
  show ?thesis by (simp add: 1 2)
qed

lemma dx_levels_equal_prices:
  "newOrderBookLevels dx [''100.0'', ''100'']
     [''100'' \<mapsto> \<lparr>Price = Dec 10000000000 True, Volume = Dec 10000000000 True\<rparr>,
      ''100.0'' \<mapsto> \<lparr>Price = Dec 10000000000 False, Volume = Dec 10000000000 False\<rparr>] True
   = [\<lparr>Price = Dec 10000000000 False, Volume = Dec 10000000000 False\<rparr>,
      \<lparr>Price = Dec 10000000000 True, Volume = Dec 10000000000 True\<rparr>]"
  "newOrderBookLevels dx [''100'', ''100.0'']
     [''100'' \<mapsto> \<lparr>Price = Dec 10000000000 True, Volume = Dec 10000000000 True\<rparr>,
      ''100.0'' \<mapsto> \<lparr>Price = Dec 10000000000 False, Volume = Dec 10000000000 False\<rparr>] True
   = [\<lparr>Price = Dec 10000000000 True, Volume = Dec 10000000000 True\<rparr>,
      \<lparr>Price = Dec 10000000000 False, Volume = Dec 10000000000 False\<rparr>]"
  by code_simp+

lemma dx_checksum_equal_prices:
  "checksum_loop dx 1 0 [\<lparr>Price = Dec 10000000000 False, Volume = Dec 10000000000 False\<rparr>]
     = ''1000100''"
  "checksum_loop dx 1 0 [\<lparr>Price = Dec 10000000000 True, Volume = Dec 10000000000 True\<rparr>]
     = ''100100''"
  by code_simp+

theorem applyUpdates_twice_equal_prices:
  "Cmp dx (Dec 10000000000 True) (Dec 10000000000 False) = 0 \<and>
   stringFixed dx (Dec 10000000000 True) 1 = ''100'' \<and>
   stringFixed dx (Dec 10000000000 False) 1 = ''100.0'' \<and>
   sort_ok dx \<and> sort_sorts dx \<and>
   applyUpdates dx [''100.0'', ''100''] (newOrderBookSide 1 1 0 True)
     [\<lparr>upd_Price = ''1e2'', upd_Volume = ''7''\<rparr>,
      \<lparr>upd_Price = ''100'', upd_Volume = ''7''\<rparr>]
   = Return None ((newOrderBookSide 1 1 0 True)
       \<lparr>o_m := [''100.0'' \<mapsto> \<lparr>Price = Dec 10000000000 False, Volume = Dec 10000000000 False\<rparr>],
        o_sorted := [\<lparr>Price = Dec 10000000000 False, Volume = Dec 10000000000 False\<rparr>]\<rparr>) \<and>
   applyUpdates dx [''100'', ''100.0'']
     ((newOrderBookSide 1 1 0 True)
       \<lparr>o_m := [''100.0'' \<mapsto> \<lparr>Price = Dec 10000000000 False, Volume = Dec 10000000000 False\<rparr>],
        o_sorted := [\<lparr>Price = Dec 10000000000 False, Volume = Dec 10000000000 False\<rparr>]\<rparr>)
     [\<lparr>upd_Price = ''1e2'', upd_Volume = ''7''\<rparr>,
      \<lparr>upd_Price = ''100'', upd_Volume = ''7''\<rparr>]
   = Return None ((newOrderBookSide 1 1 0 True)
       \<lparr>o_m := [''100'' \<mapsto> \<lparr>Price = Dec 10000000000 True, Volume = Dec 10000000000 True\<rparr>],
        o_sorted := [\<lparr>Price = Dec 10000000000 True, Volume = Dec 10000000000 True\<rparr>]\<rparr>) \<and>
   checksum dx ((newOrderBookSide 1 1 0 True)
       \<lparr>o_m := [''100.0'' \<mapsto> \<lparr>Price = Dec 10000000000 False, Volume = Dec 10000000000 False\<rparr>],
        o_sorted := [\<lparr>Price = Dec 10000000000 False, Volume = Dec 10000000000 False\<rparr>]\<rparr>)
     = Some ''1000100'' \<and>
   checksum dx ((newOrderBookSide 1 1 0 True)
       \<lparr>o_m := [''100'' \<mapsto> \<lparr>Price = Dec 10000000000 True, Volume = Dec 10000000000 True\<rparr>],
        o_sorted := [\<lparr>Price = Dec 10000000000 True, Volume = Dec 10000000000 True\<rparr>]\<rparr>)
     = Some ''100100''"
proof -
  let ?s0 = "newOrderBookSide 1 1 0 True :: dec OrderBookSide"
  let ?us = "[\<lparr>upd_Price = ''1e2'', upd_Volume = ''7''\<rparr>,
              \<lparr>upd_Price = ''100'', upd_Volume = ''7''\<rparr>]"
  let ?A = "\<lparr>Price = Dec 10000000000 True, Volume = Dec 10000000000 True\<rparr>"
  let ?B = "\<lparr>Price = Dec 10000000000 False, Volume = Dec 10000000000 False\<rparr>"
  let ?m = "[''100'' \<mapsto> ?A, ''100.0'' \<mapsto> ?B]"
  let ?sA = "?s0\<lparr>o_m := [''100.0'' \<mapsto> ?B], o_sorted := [?B]\<rparr>"
  let ?sB = "?s0\<lparr>o_m := [''100'' \<mapsto> ?A], o_sorted := [?A]\<rparr>"
  have loop1: "applyUpdates_loop dx ?s0 ?us = Return None (?s0\<lparr>o_m := ?m\<rparr>)"
    using dx_loop_equal_prices [of ?s0] by simp
  have dA: "delete_levels dx 1 [?A] ?m = [''100.0'' \<mapsto> ?B]"
    by (rule ext) (simp add: delete_levels_apply dx_key_1e2)
  have first: "applyUpdates dx [''100.0'', ''100''] ?s0 ?us = Return None ?sA"
    using applyUpdates_Return [OF loop1 _ refl, of "[''100.0'', ''100'']"]
    by (simp add: dx_levels_equal_prices dA del: delete_levels.simps)
  have m2: "[''100.0'' \<mapsto> ?B, ''100'' \<mapsto> ?A, ''100.0'' \<mapsto> ?B] = ?m"
    by (rule ext) simp
  have loop2: "applyUpdates_loop dx ?sA ?us = Return None (?sA\<lparr>o_m := ?m\<rparr>)"
    using dx_loop_equal_prices [of ?sA] by (simp add: m2)
  have dB: "delete_levels dx 1 [?B] ?m = [''100'' \<mapsto> ?A]"
    by (rule ext) (simp add: delete_levels_apply dx_key_100)
  have second: "applyUpdates dx [''100'', ''100.0''] ?sA ?us = Return None ?sB"
    using applyUpdates_Return [OF loop2 _ refl, of "[''100'', ''100.0'']"]
    by (simp add: dx_levels_equal_prices dB del: delete_levels.simps)
  have c: "Cmp dx (Dec 10000000000 True) (Dec 10000000000 False) = 0" by code_simp
  have chA: "checksum dx ?sA = Some ''1000100''"
    by (simp add: checksum_def dx_checksum_equal_prices del: checksum_loop.simps)
  have chB: "checksum dx ?sB = Some ''100100''"
    by (simp add: checksum_def dx_checksum_equal_prices del: checksum_loop.simps)
  show ?thesis
    by (intro conjI)
       (rule c dx_key_1e2 dx_key_100 sort_ok_dx sort_sorts_dx first second chA chB)+
qed

subsection \<open>A failing batch applied twice\<close>

lemma applyUpdate_error_cases:
  assumes "applyUpdate L s u = Return (Some err) s'"
  shows "s' = s \<or> s' = s\<lparr>o_mx := True\<rparr>"
  using assms
  by (auto simp: applyUpdate_def Let_def split: sum.splits if_splits)

lemma applyUpdates_loop_error_split:
  "applyUpdates_loop L s updates = Return (Some err) s' \<Longrightarrow>
   \<exists>pre u post t. updates = pre @ u # post \<and> applyUpdates_loop L s pre = Return None t \<and>
      applyUpdate L t u = Return (Some err) s'"
proof (induction updates arbitrary: s)
  case Nil
  then show ?case by simp
next
  case (Cons u updates)
  show ?case
  proof (cases "applyUpdate L s u")
    case (Return e1 s1)
    show ?thesis
    proof (cases e1)
      case None
      with Cons.prems Return have "applyUpdates_loop L s1 updates = Return (Some err) s'" by simp
      from Cons.IH [OF this] obtain pre v post t where
        "updates = pre @ v # post" "applyUpdates_loop L s1 pre = Return None t"
        "applyUpdate L t v = Return (Some err) s'" by blast
      with Return None have "u # updates = (u # pre) @ v # post \<and>
          applyUpdates_loop L s (u # pre) = Return None t \<and>
          applyUpdate L t v = Return (Some err) s'" by simp
      then show ?thesis by blast
    next
      case (Some e)
      with Cons.prems Return have "u # updates = [] @ u # updates \<and>
          applyUpdates_loop L s [] = Return None s \<and>
          applyUpdate L s u = Return (Some err) s'" by simp
      then show ?thesis by blast
    qed
  next
    case Blocked
    with Cons.prems show ?thesis by simp
  next
    case Panic
    with Cons.prems show ?thesis by simp
  qed
qed

lemma applyUpdates_loop_idem:
  assumes loop: "applyUpdates_loop L s updates = Return None t"
  shows "applyUpdates_loop L t updates = Return None t"
proof (cases updates)
  case Nil
  then show ?thesis by simp
next
  case (Cons u us)
  with loop obtain sa where "applyUpdate L s u = Return None sa"
    by (auto split: outcome.splits option.splits)
  from applyUpdate_None_cases [OF this] have "\<not> o_mx s" by blast
  moreover from applyUpdates_loop_only_map [OF loop] have "o_mx t = o_mx s"
    by (metis OrderBookSide.select_convs(7) OrderBookSide.surjective OrderBookSide.update_convs(1))
  ultimately have free: "\<not> o_mx t" by simp
  from applyUpdates_loop_fields [OF loop] have pp: "o_pricePrecision t = o_pricePrecision s" by simp
  from applyUpdates_loop_two_runs [OF loop pp free] obtain t' where
    l': "applyUpdates_loop L t updates = Return None t'"
    and rel: "\<And>k. o_m t' k = o_m t k \<or> o_m t k = o_m s k \<and> o_m t' k = o_m t k"
    by blast
  from rel have "o_m t' = o_m t" by (intro ext) blast
  with applyUpdates_loop_only_map [OF l'] have "t' = t" by simp
  with l' show ?thesis by simp
qed

text \<open>A batch that ended with an error (and the mutex free) ends with the same error, and
  the same side, when it is applied again.\<close>

lemma applyUpdates_twice_error:
  assumes first: "applyUpdates L ks1 s updates = Return (Some err) s1" and free: "\<not> o_mx s1"
  shows "applyUpdates L ks2 s1 updates = Return (Some err) s1"
proof -
  from first have "applyUpdates_loop L s updates = Return (Some err) s1"
    by (auto simp: applyUpdates_def Let_def split: outcome.splits option.splits if_splits)
  from applyUpdates_loop_error_split [OF this] obtain pre u post t where
    us: "updates = pre @ u # post" and pre: "applyUpdates_loop L s pre = Return None t"
    and u: "applyUpdate L t u = Return (Some err) s1" by blast
  from applyUpdate_error_cases [OF u] free have "s1 = t" by auto
  with u have "applyUpdates_loop L t (u # post) = Return (Some err) t" by simp
  with applyUpdates_loop_append [OF applyUpdates_loop_idem [OF pre], of "u # post"]
  have "applyUpdates_loop L t updates = Return (Some err) t" unfolding us by simp
  then show ?thesis unfolding \<open>s1 = t\<close> by (simp add: applyUpdates_def)
qed

subsection \<open>The mutex between the updates of a batch\<close>

text \<open>Claim C10 says that \<open>applyUpdates\<close> holds the write lock for the whole sequence of
  updates and resort, so that a reader sees the side as it was before the batch or as
  it is after it. In the source it is \<open>applyUpdate\<close> that locks and unlocks, once for
  every update, and \<open>applyUpdates\<close> locks again only for the resort: whenever a batch
  returns without error, the mutex is free after its first update, before the rest of
  the batch has run, and every \<open>Get\<close> is answered from the map of that moment, while
  \<open>o.sorted\<close> is still the one from before the batch.\<close>

theorem applyUpdates_mutex_free_between_updates:
  assumes ret: "applyUpdates L ks s (u # updates) = Return None s'"
  shows "\<exists>s1. applyUpdate L s u = Return None s1 \<and> \<not> o_mx s1 \<and>
           (\<forall>p. Get L s1 p \<noteq> None) \<and> o_sorted s1 = o_sorted s \<and>
           (\<exists>t. applyUpdates_loop L s1 updates = Return None t)"
proof -
  from ret obtain t where "applyUpdates_loop L s (u # updates) = Return None t"
    by (rule applyUpdates_Return_None)
  then obtain s1 where 1: "applyUpdate L s u = Return None s1"
    and 2: "applyUpdates_loop L s1 updates = Return None t"
    by (auto split: outcome.splits option.splits)
  from applyUpdate_None_cases [OF 1] have free: "\<not> o_mx s1"
    by (auto split: if_splits)
  then have "\<forall>p. Get L s1 p \<noteq> None"
    by (auto simp: Get_def Let_def split: option.splits)
  moreover from applyUpdate_fields [OF 1] have "o_sorted s1 = o_sorted s" by simp
  ultimately show ?thesis using 1 2 free by blast
qed

lemma fx_price_05: "UnmarshalText fx r ''0.5'' = Inr 50000000"
  by (cases r; code_simp)

lemma fx_key_05: "stringFixed fx 50000000 1 = ''0.5''"
  by code_simp

lemma fx_levels_mid:
  "newOrderBookLevels fx [''1.0'', ''2.0'', ''0.5'']
     [''1.0'' \<mapsto> \<lparr>Price = 100000000, Volume = 100000000\<rparr>,
      ''2.0'' \<mapsto> \<lparr>Price = 200000000, Volume = 200000000\<rparr>,
      ''0.5'' \<mapsto> \<lparr>Price = 50000000, Volume = 50000000\<rparr>] True
   = [\<lparr>Price = 50000000, Volume = 50000000\<rparr>,
      \<lparr>Price = 100000000, Volume = 100000000\<rparr>,
      \<lparr>Price = 200000000, Volume = 200000000\<rparr>]"
  "newOrderBookLevels fx [''1.0'']
     [''1.0'' \<mapsto> \<lparr>Price = 100000000, Volume = 100000000\<rparr>] True
   = [\<lparr>Price = 100000000, Volume = 100000000\<rparr>]"
  by code_simp+

theorem applyUpdates_mutex_free_between_updates_witness:
  "applyUpdates fx [''1.0''] (newOrderBookSide 1 1 0 True)
      [\<lparr>upd_Price = ''1.0'', upd_Volume = ''5''\<rparr>]
     = Return None ((newOrderBookSide 1 1 0 True)
         \<lparr>o_m := [''1.0'' \<mapsto> \<lparr>Price = 100000000, Volume = 100000000\<rparr>],
          o_sorted := [\<lparr>Price = 100000000, Volume = 100000000\<rparr>]\<rparr>) \<and>
   Get fx ((newOrderBookSide 1 1 0 True)
         \<lparr>o_m := [''1.0'' \<mapsto> \<lparr>Price = 100000000, Volume = 100000000\<rparr>],
          o_sorted := [\<lparr>Price = 100000000, Volume = 100000000\<rparr>]\<rparr>) 200000000
     = Some (0, False) \<and>
   (\<exists>s1 s'.
      applyUpdates fx [''1.0'', ''2.0'', ''0.5'']
         ((newOrderBookSide 1 1 0 True)
           \<lparr>o_m := [''1.0'' \<mapsto> \<lparr>Price = 100000000, Volume = 100000000\<rparr>],
            o_sorted := [\<lparr>Price = 100000000, Volume = 100000000\<rparr>]\<rparr>)
         [\<lparr>upd_Price = ''2.0'', upd_Volume = ''5''\<rparr>,
          \<lparr>upd_Price = ''0.5'', upd_Volume = ''5''\<rparr>] = Return None s' \<and>
      applyUpdate fx
         ((newOrderBookSide 1 1 0 True)
           \<lparr>o_m := [''1.0'' \<mapsto> \<lparr>Price = 100000000, Volume = 100000000\<rparr>],
            o_sorted := [\<lparr>Price = 100000000, Volume = 100000000\<rparr>]\<rparr>)
         \<lparr>upd_Price = ''2.0'', upd_Volume = ''5''\<rparr> = Return None s1 \<and>
      \<not> o_mx s1 \<and>
      Get fx s1 200000000 = Some (200000000, True) \<and>
      o_sorted s' = [\<lparr>Price = 50000000, Volume = 50000000\<rparr>] \<and>
      Get fx s' 200000000 = Some (0, False))"
proof -
  let ?s0 = "newOrderBookSide 1 1 0 True :: int OrderBookSide"
  let ?L05 = "\<lparr>Price = 50000000 :: int, Volume = 50000000\<rparr>"
  let ?L1 = "\<lparr>Price = 100000000 :: int, Volume = 100000000\<rparr>"
  let ?L2 = "\<lparr>Price = 200000000 :: int, Volume = 200000000\<rparr>"
  let ?u0 = "\<lparr>upd_Price = ''1.0'', upd_Volume = ''5''\<rparr>"
  let ?u1 = "\<lparr>upd_Price = ''2.0'', upd_Volume = ''5''\<rparr>"
  let ?u2 = "\<lparr>upd_Price = ''0.5'', upd_Volume = ''5''\<rparr>"
  let ?pre = "?s0\<lparr>o_m := [''1.0'' \<mapsto> ?L1], o_sorted := [?L1]\<rparr>"
  let ?s1 = "?pre\<lparr>o_m := [''1.0'' \<mapsto> ?L1, ''2.0'' \<mapsto> ?L2]\<rparr>"
  let ?m = "[''1.0'' \<mapsto> ?L1, ''2.0'' \<mapsto> ?L2, ''0.5'' \<mapsto> ?L05]"
  let ?s2 = "?pre\<lparr>o_m := ?m\<rparr>"
  let ?s' = "?pre\<lparr>o_m := delete_levels fx 1 [?L1, ?L2] ?m, o_sorted := [?L05]\<rparr>"
  have new0: "New fx 0 0 = 0" by code_simp
  have 0: "applyUpdate fx ?s0 ?u0 = Return None (?s0\<lparr>o_m := [''1.0'' \<mapsto> ?L1]\<rparr>)"
    using applyUpdate_insert_key [of fx ?u0 ?s0 100000000 100000000 "''1.0''"]
    by (simp add: fx_5 fx_price_10 fx_key_10)
  then have loop0: "applyUpdates_loop fx ?s0 [?u0] = Return None (?s0\<lparr>o_m := [''1.0'' \<mapsto> ?L1]\<rparr>)"
    by simp
  have reach: "applyUpdates fx [''1.0''] ?s0 [?u0] = Return None ?pre"
    using applyUpdates_Return [OF loop0 _ refl, of "[''1.0'']"]
    by (simp add: fx_levels_mid)
  have 1: "applyUpdate fx ?pre ?u1 = Return None ?s1"
    using applyUpdate_insert_key [of fx ?u1 ?pre 200000000 200000000 "''2.0''"]
    by (simp add: fx_5 fx_price_20 fx_key_20)
  have 2: "applyUpdate fx ?s1 ?u2 = Return None ?s2"
    using applyUpdate_insert_key [of fx ?u2 ?s1 50000000 50000000 "''0.5''"]
    by (simp add: fx_5 fx_price_05 fx_key_05)
  have loop: "applyUpdates_loop fx ?pre [?u1, ?u2] = Return None ?s2"
    using 1 2 by simp
  have ret: "applyUpdates fx [''1.0'', ''2.0'', ''0.5''] ?pre [?u1, ?u2] = Return None ?s'"
    using applyUpdates_Return [OF loop _ refl, of "[''1.0'', ''2.0'', ''0.5'']"]
    by (simp add: fx_levels_mid del: delete_levels.simps)
  from applyUpdates_mutex_free_between_updates [OF ret] obtain x where
    x: "applyUpdate fx ?pre ?u1 = Return None x" and nomx: "\<not> o_mx x" by blast
  from x 1 have "x = ?s1" by simp
  with nomx have free: "\<not> o_mx ?s1" by simp
  have g0: "Get fx ?pre 200000000 = Some (0, False)"
    by (simp add: Get_def fx_key_20 new0)
  have g1: "Get fx ?s1 200000000 = Some (200000000, True)"
    by (simp add: Get_def fx_key_20)
  have g2: "Get fx ?s' 200000000 = Some (0, False)"
    by (simp add: Get_def fx_key_20 fx_key_10 new0 delete_levels_apply)
  have so: "o_sorted ?s' = [?L05]" by simp
  have "\<exists>s1 s'. applyUpdates fx [''1.0'', ''2.0'', ''0.5''] ?pre [?u1, ?u2] = Return None s' \<and>
      applyUpdate fx ?pre ?u1 = Return None s1 \<and> \<not> o_mx s1 \<and>
      Get fx s1 200000000 = Some (200000000, True) \<and>
      o_sorted s' = [?L05] \<and> Get fx s' 200000000 = Some (0, False)"
    by (rule exI [of _ ?s1], rule exI [of _ ?s'], intro conjI)
       (rule ret 1 free g1 so g2)+
  with reach g0 show ?thesis by (intro conjI)
qed

end
